theory Spec2Isabelle
  imports Complex_Main
begin

section \<open>Data model of the immersed boundary module\<close>

text \<open>
  The embedding follows \<^verbatim>\<open>src/Serial/immersed_boundary.c\<close>. The C type \<^verbatim>\<open>Real\<close> is
  modelled by the exact reals of HOL: rounding, infinities and NaN of the machine
  type are not part of the model. \<^verbatim>\<open>int\<close> is modelled by the unbounded integers.
  Three-component arrays (\<^verbatim>\<open>RealVec\<close>, \<^verbatim>\<open>IntVec\<close>) are triples in the order X, Y, Z;
  primitive and conservative vectors are lists.

  Record fields keep the names of the C structures, with the prefix \<open>part_\<close> or
  \<open>poly_\<close> on the fields of \<^verbatim>\<open>Partition\<close> and \<^verbatim>\<open>Polyhedron\<close> whose C names are one
  or two letters long.
\<close>

type_synonym RealVec = "real \<times> real \<times> real"
type_synonym IntVec = "int \<times> int \<times> int"

text \<open>
  The primitive vector is (rho, u, v, w, p, T): the source reads and writes the six
  entries \<^verbatim>\<open>Uo[0]\<close> .. \<^verbatim>\<open>Uo[5]\<close> of arrays declared \<^verbatim>\<open>Real Uo[DIMUo]\<close>.
\<close>

definition DIMUo :: nat where
  "DIMUo = 6"

text \<open>The enumeration \<^verbatim>\<open>IBM\<close> of the file: \<^verbatim>\<open>R = 2\<close>, the initial search range.\<close>

definition IBM_R :: int where
  "IBM_R = 2"

record Node =
  gid :: int
  fid :: int
  lid :: int
  gst :: int
  U :: "nat \<Rightarrow> real list"

record Polyhedron =
  poly_state :: int
  poly_faceN :: int
  poly_r :: real
  poly_O :: RealVec
  poly_box_MIN :: RealVec
  poly_box_MAX :: RealVec
  poly_cf :: real
  poly_T :: real
  poly_V :: "nat \<Rightarrow> RealVec"
  poly_W :: "nat \<Rightarrow> RealVec"

record Geometry =
  totN :: nat
  poly :: "nat \<Rightarrow> Polyhedron"

record Partition =
  ns_PIN_MIN :: IntVec
  ns_PIN_MAX :: IntVec
  part_n :: IntVec
  domain_MIN :: RealVec
  part_d :: RealVec
  part_dd :: RealVec
  part_ng :: int
  part_gl :: int
  pathSep :: "nat \<Rightarrow> int"
  path :: "nat \<Rightarrow> IntVec"
  tinyL :: real

record Model =
  gamma :: real
  gasR :: real
  ibmLayer :: int

record Space =
  part :: Partition
  geo :: Geometry
  node :: "int \<Rightarrow> Node"

text \<open>
  The constants and functions that the file takes from \<^verbatim>\<open>commons.h\<close>,
  \<^verbatim>\<open>cfd_commons.h\<close> and \<^verbatim>\<open>computational_geometry.h\<close> are not part of the source
  under study. They are parameters of the model, collected in one record. Their
  signatures are the ones of the calls in the source; a function that writes its
  result through a pointer returns that result.
\<close>

record Ext =
  NONE :: int
  TO :: nat
  IndexNode :: "int \<Rightarrow> int \<Rightarrow> int \<Rightarrow> int \<Rightarrow> int \<Rightarrow> int"
  PointSpace :: "int \<Rightarrow> real \<Rightarrow> real \<Rightarrow> int \<Rightarrow> real"
  NodeSpace :: "real \<Rightarrow> real \<Rightarrow> real \<Rightarrow> int \<Rightarrow> int"
  ValidNodeSpace :: "int \<Rightarrow> int \<Rightarrow> int \<Rightarrow> int"
  PointInPolyhedron :: "RealVec \<Rightarrow> Polyhedron \<Rightarrow> bool \<times> int"
  PrimitiveByConservative :: "real \<Rightarrow> real \<Rightarrow> real list \<Rightarrow> real list"
  ConservativeByPrimitive :: "real \<Rightarrow> real list \<Rightarrow> real list"
  OrthogonalSpace :: "RealVec \<Rightarrow> RealVec \<times> RealVec"

section \<open>Method of image\<close>

text \<open>
  \<^verbatim>\<open>MethodOfImage(UoI, UoO, UoG)\<close> writes the entries 1 to 5 of \<^verbatim>\<open>UoG\<close> and leaves
  entry 0 (the density) as it is.
\<close>

definition MethodOfImage :: "real list \<Rightarrow> real list \<Rightarrow> real list \<Rightarrow> real list" where
  "MethodOfImage UoI UoO UoG =
     UoG[1 := UoO ! 1 + UoO ! 1 - UoI ! 1,
         2 := UoO ! 2 + UoO ! 2 - UoI ! 2,
         3 := UoO ! 3 + UoO ! 3 - UoI ! 3,
         4 := UoI ! 4,
         5 := UoI ! 5]"

section \<open>External linear algebra\<close>

definition Dist2 :: "RealVec \<Rightarrow> RealVec \<Rightarrow> real" where
  \<comment> \<open>Modelled from the spec: \<^verbatim>\<open>Dist2\<close> of \<^verbatim>\<open>computational_geometry.h\<close> is not in the
      source; the spec lists it as the squared distance of two points.\<close>
  "Dist2 a b = (case a of (ax, ay, az) \<Rightarrow> case b of (bx, by, bz) \<Rightarrow>
     (bx - ax) * (bx - ax) + (by - ay) * (by - ay) + (bz - az) * (bz - az))"

definition Dot :: "RealVec \<Rightarrow> RealVec \<Rightarrow> real" where
  \<comment> \<open>Modelled from the spec: \<^verbatim>\<open>Dot\<close> is not in the source; the spec lists it as the
      dot product.\<close>
  "Dot a b = (case a of (ax, ay, az) \<Rightarrow> case b of (bx, by, bz) \<Rightarrow>
     ax * bx + ay * by + az * bz)"

definition Cross :: "RealVec \<Rightarrow> RealVec \<Rightarrow> RealVec" where
  \<comment> \<open>Modelled from the spec: \<^verbatim>\<open>Cross\<close> is not in the source; the spec lists it as the
      cross product.\<close>
  "Cross a b = (case a of (ax, ay, az) \<Rightarrow> case b of (bx, by, bz) \<Rightarrow>
     (ay * bz - az * by, az * bx - ax * bz, ax * by - ay * bx))"

definition Normalize :: "nat \<Rightarrow> real \<Rightarrow> real list \<Rightarrow> real list" where
  \<comment> \<open>Modelled from the spec: \<^verbatim>\<open>Normalize\<close> is not in the source; by the spec the caller
      normalizes the accumulated state by dividing it by the returned weight sum.\<close>
  "Normalize dimV normalizer V = map (\<lambda>x. x / normalizer) (take dimV V) @ drop dimV V"

section \<open>Inverse distance weighting\<close>

text \<open>
  \<^verbatim>\<open>ApplyWeighting(Uoh, tiny, weight, weightSum, Uo)\<close> updates \<^verbatim>\<open>*weightSum\<close> and
  \<^verbatim>\<open>Uo\<close>; the model returns both.
\<close>

definition ApplyWeighting ::
  "real list \<Rightarrow> real \<Rightarrow> real \<Rightarrow> real \<Rightarrow> real list \<Rightarrow> real \<times> real list" where
  "ApplyWeighting Uoh tiny weight weightSum Uo =
     (let weight1 = (if tiny > weight then tiny else weight);
          weight2 = 1 / weight1
      in (weightSum + weight2,
          fold (\<lambda>n Uo'. Uo'[n := Uo' ! n + Uoh ! n * weight2]) [0..<DIMUo] Uo))"

text \<open>
  The state of the search loop of \<^verbatim>\<open>InverseDistanceWeighting\<close>: the tally of donors,
  the weight sum and the accumulated primitive vector.
\<close>

type_synonym IDWState = "int \<times> real \<times> real list"

text \<open>The offsets (kh, jh, ih) of the cube of half-width \<open>r\<close>, in the order of the loop nest.\<close>

definition cube :: "int \<Rightarrow> IntVec list" where
  "cube r = [(kh, jh, ih). kh \<leftarrow> [- r..r], jh \<leftarrow> [- r..r], ih \<leftarrow> [- r..r]]"

text \<open>The body of the innermost loop, at one offset.\<close>

definition IDW_visit ::
  "Ext \<Rightarrow> nat \<Rightarrow> IntVec \<Rightarrow> RealVec \<Rightarrow> int \<Rightarrow> int \<Rightarrow> Partition \<Rightarrow> (int \<Rightarrow> Node) \<Rightarrow> Model
     \<Rightarrow> IntVec \<Rightarrow> IDWState \<Rightarrow> IDWState" where
  "IDW_visit ext tn n p type gidq pt nd model off st =
     (case n of (nX, nY, nZ) \<Rightarrow> case off of (kh, jh, ih) \<Rightarrow>
      case part_n pt of (pnX, pnY, pnZ) \<Rightarrow> case domain_MIN pt of (sMinX, sMinY, sMinZ) \<Rightarrow>
      case part_d pt of (dX, dY, dZ) \<Rightarrow> case st of (tally, weightSum, Uo) \<Rightarrow>
        let idx = IndexNode ext (nZ + kh) (nY + jh) (nX + ih) pnY pnX;
            idxMax = pnX * pnY * pnZ
        in if 0 > idx \<or> idxMax \<le> idx then st
           else if gidq \<noteq> gid (nd idx) then st
           else if gidq = 0 \<and> type \<noteq> fid (nd idx) then st
           else if gidq \<noteq> 0 \<and> type \<noteq> gst (nd idx) then st
           else
             let ph = (PointSpace ext (nX + ih) sMinX dX (part_ng pt),
                       PointSpace ext (nY + jh) sMinY dY (part_ng pt),
                       PointSpace ext (nZ + kh) sMinZ dZ (part_ng pt));
                 Uoh = PrimitiveByConservative ext (gamma model) (gasR model) (U (nd idx) tn)
             in case ApplyWeighting Uoh (tinyL pt) (Dist2 p ph) weightSum Uo of
                  (weightSum', Uo') \<Rightarrow> (tally + 1, weightSum', Uo'))"

text \<open>
  The loop \<^verbatim>\<open>for (int r = h, tally = 0; 0 == tally; ++r)\<close> has no other exit than a
  positive tally. It is a partial function: \<open>None\<close> is the loop that runs forever.
\<close>

partial_function (option) IDW_loop ::
  "(int \<Rightarrow> IDWState \<Rightarrow> IDWState) \<Rightarrow> int \<Rightarrow> IDWState \<Rightarrow> IDWState option" where
  "IDW_loop scan r st =
     (if 0 = fst st then IDW_loop scan (r + 1) (scan r st) else Some st)"

definition InverseDistanceWeighting ::
  "Ext \<Rightarrow> nat \<Rightarrow> IntVec \<Rightarrow> RealVec \<Rightarrow> int \<Rightarrow> int \<Rightarrow> int \<Rightarrow> Partition \<Rightarrow> (int \<Rightarrow> Node) \<Rightarrow> Model
     \<Rightarrow> (real \<times> real list) option" where
  "InverseDistanceWeighting ext tn n p h type gidq pt nd model =
     map_option snd
       (IDW_loop (\<lambda>r. fold (IDW_visit ext tn n p type gidq pt nd model) (cube r))
          h (0, 0, replicate DIMUo 0))"

section \<open>Flow reconstruction\<close>

text \<open>
  \<^verbatim>\<open>FlowReconstruction\<close> writes the entries 1 to 5 of \<^verbatim>\<open>UoO\<close> and the whole of
  \<^verbatim>\<open>UoI\<close>; the model returns both. It returns when the search of
  \<^verbatim>\<open>InverseDistanceWeighting\<close> does.
\<close>

definition FlowReconstruction ::
  "Ext \<Rightarrow> nat \<Rightarrow> IntVec \<Rightarrow> RealVec \<Rightarrow> int \<Rightarrow> int \<Rightarrow> int \<Rightarrow> Polyhedron \<Rightarrow> Partition
     \<Rightarrow> (int \<Rightarrow> Node) \<Rightarrow> Model \<Rightarrow> RealVec \<Rightarrow> RealVec \<Rightarrow> real list
     \<Rightarrow> (real list \<times> real list) option" where
  "FlowReconstruction ext tn n p h type gidq ply pt nd model pO N UoO =
     (case InverseDistanceWeighting ext tn n p h type gidq pt nd model of
        None \<Rightarrow> None
      | Some (weightSum, UoI) \<Rightarrow>
          let weight = 1 / weightSum;
              r = (fst pO - fst (poly_O ply),
                   fst (snd pO) - fst (snd (poly_O ply)),
                   snd (snd pO) - snd (snd (poly_O ply)));
              Vs0 = Cross (poly_W ply (TO ext)) r;
              Vs = (fst (poly_V ply (TO ext)) + fst Vs0,
                    fst (snd (poly_V ply (TO ext))) + fst (snd Vs0),
                    snd (snd (poly_V ply (TO ext))) + snd (snd Vs0));
              UoO1 =
                (if 0 < poly_cf ply
                 then UoO[1 := fst Vs, 2 := fst (snd Vs), 3 := snd (snd Vs)]
                 else
                   let VI = (UoI ! 1 * weight, UoI ! 2 * weight, UoI ! 3 * weight);
                       Ta = fst (OrthogonalSpace ext N);
                       Tb = snd (OrthogonalSpace ext N);
                       RHS = (Dot Vs N, Dot VI Ta, Dot VI Tb)
                   in UoO[1 := fst N * fst RHS + fst Ta * fst (snd RHS) + fst Tb * snd (snd RHS),
                          2 := fst (snd N) * fst RHS + fst (snd Ta) * fst (snd RHS)
                               + fst (snd Tb) * snd (snd RHS),
                          3 := snd (snd N) * fst RHS + snd (snd Ta) * fst (snd RHS)
                               + snd (snd Tb) * snd (snd RHS)]);
              UoO2 = UoO1[4 := UoI ! 4 * weight];
              UoO3 = (if 0 > poly_T ply then UoO2[5 := UoI ! 5 * weight]
                      else UoO2[5 := poly_T ply])
          in case ApplyWeighting UoO3 (tinyL pt) (Dist2 p pO) weightSum UoI of
               (weightSum', UoI') \<Rightarrow> Some (UoO3, Normalize DIMUo weightSum' UoI'))"

text \<open>
  The conditions and quantities of \<open>IDW_visit\<close>, named for the statements below: the
  linear index of the candidate at an offset, the test that the candidate passes every
  \<^verbatim>\<open>continue\<close> of the loop body (a donor), the squared distance handed to
  \<open>ApplyWeighting\<close>, the weight that \<open>ApplyWeighting\<close> computes from it, the primitive
  state of the candidate, and the donors of the cube of half-width \<open>r\<close> in loop order.
\<close>

definition IDW_index :: "Ext \<Rightarrow> IntVec \<Rightarrow> Partition \<Rightarrow> IntVec \<Rightarrow> int" where
  "IDW_index ext n pt off =
     (case n of (nX, nY, nZ) \<Rightarrow> case off of (kh, jh, ih) \<Rightarrow>
      case part_n pt of (pnX, pnY, pnZ) \<Rightarrow>
        IndexNode ext (nZ + kh) (nY + jh) (nX + ih) pnY pnX)"

definition IDW_donor :: "Ext \<Rightarrow> IntVec \<Rightarrow> int \<Rightarrow> int \<Rightarrow> Partition \<Rightarrow> (int \<Rightarrow> Node) \<Rightarrow> IntVec \<Rightarrow> bool" where
  "IDW_donor ext n type gidq pt nd off =
     (case part_n pt of (pnX, pnY, pnZ) \<Rightarrow>
        0 \<le> IDW_index ext n pt off \<and> IDW_index ext n pt off < pnX * pnY * pnZ
        \<and> gid (nd (IDW_index ext n pt off)) = gidq
        \<and> (if gidq = 0 then fid (nd (IDW_index ext n pt off)) = type
            else gst (nd (IDW_index ext n pt off)) = type))"

definition IDW_dist2 :: "Ext \<Rightarrow> IntVec \<Rightarrow> RealVec \<Rightarrow> Partition \<Rightarrow> IntVec \<Rightarrow> real" where
  "IDW_dist2 ext n p pt off =
     (case n of (nX, nY, nZ) \<Rightarrow> case off of (kh, jh, ih) \<Rightarrow>
      case domain_MIN pt of (sMinX, sMinY, sMinZ) \<Rightarrow> case part_d pt of (dX, dY, dZ) \<Rightarrow>
        Dist2 p (PointSpace ext (nX + ih) sMinX dX (part_ng pt),
                 PointSpace ext (nY + jh) sMinY dY (part_ng pt),
                 PointSpace ext (nZ + kh) sMinZ dZ (part_ng pt)))"

definition IDW_weight :: "Ext \<Rightarrow> IntVec \<Rightarrow> RealVec \<Rightarrow> Partition \<Rightarrow> IntVec \<Rightarrow> real" where
  "IDW_weight ext n p pt off = 1 / max (IDW_dist2 ext n p pt off) (tinyL pt)"

definition IDW_Uoh :: "Ext \<Rightarrow> nat \<Rightarrow> IntVec \<Rightarrow> Partition \<Rightarrow> (int \<Rightarrow> Node) \<Rightarrow> Model \<Rightarrow> IntVec \<Rightarrow> real list" where
  "IDW_Uoh ext tn n pt nd model off =
     PrimitiveByConservative ext (gamma model) (gasR model) (U (nd (IDW_index ext n pt off)) tn)"

definition IDW_donors :: "Ext \<Rightarrow> IntVec \<Rightarrow> int \<Rightarrow> int \<Rightarrow> Partition \<Rightarrow> (int \<Rightarrow> Node) \<Rightarrow> int \<Rightarrow> IntVec list" where
  "IDW_donors ext n type gidq pt nd r = filter (IDW_donor ext n type gidq pt nd) (cube r)"

section \<open>Node classification\<close>

text \<open>
  The loop nests over nodes run over k (outermost), j and i (innermost), each over a
  half-open range. A node is addressed by its triple (k, j, i).
\<close>

definition box_nodes :: "IntVec \<Rightarrow> IntVec \<Rightarrow> IntVec list" where
  "box_nodes lo hi =
     (case lo of (xMin, yMin, zMin) \<Rightarrow> case hi of (xMax, yMax, zMax) \<Rightarrow>
        [(k, j, i). k \<leftarrow> [zMin..zMax - 1], j \<leftarrow> [yMin..yMax - 1], i \<leftarrow> [xMin..xMax - 1]])"

definition interior :: "Partition \<Rightarrow> IntVec list" where
  "interior pt = box_nodes (ns_PIN_MIN pt) (ns_PIN_MAX pt)"

definition node_index :: "Ext \<Rightarrow> Partition \<Rightarrow> IntVec \<Rightarrow> int" where
  "node_index ext pt t =
     (case t of (k, j, i) \<Rightarrow> case part_n pt of (pnX, pnY, pnZ) \<Rightarrow> IndexNode ext k j i pnY pnX)"

definition node_point :: "Ext \<Rightarrow> Partition \<Rightarrow> IntVec \<Rightarrow> RealVec" where
  "node_point ext pt t =
     (case t of (k, j, i) \<Rightarrow> case domain_MIN pt of (sMinX, sMinY, sMinZ) \<Rightarrow>
      case part_d pt of (dX, dY, dZ) \<Rightarrow>
        (PointSpace ext i sMinX dX (part_ng pt),
         PointSpace ext j sMinY dY (part_ng pt),
         PointSpace ext k sMinZ dZ (part_ng pt)))"

subsection \<open>Reset phase\<close>

text \<open>The body of the loop nest of \<^verbatim>\<open>InitializeGeometryDomain\<close>, on the visited node.\<close>

definition Init_node :: "Geometry \<Rightarrow> Node \<Rightarrow> Node" where
  "Init_node g v =
     (if 0 \<ge> gid v then v\<lparr>gid := 0, lid := 0, gst := 0\<rparr>
      else if 1 = poly_state (poly g (nat (gid v - 1))) then v\<lparr>lid := 0, gst := 0\<rparr>
      else if 0 < lid v then v\<lparr>gid := 0, lid := 0, gst := 0\<rparr>
      else v)"

definition Init_visit :: "Ext \<Rightarrow> Partition \<Rightarrow> Geometry \<Rightarrow> IntVec \<Rightarrow> (int \<Rightarrow> Node) \<Rightarrow> (int \<Rightarrow> Node)" where
  "Init_visit ext pt g t nd =
     nd(node_index ext pt t := Init_node g (nd (node_index ext pt t)))"

definition InitializeGeometryDomain :: "Ext \<Rightarrow> Space \<Rightarrow> Space" where
  "InitializeGeometryDomain ext sp =
     sp\<lparr>node := fold (Init_visit ext (part sp) (geo sp)) (interior (part sp)) (node sp)\<rparr>"

subsection \<open>Ownership phase\<close>

text \<open>The search range of a polyhedron: its bounding box in node space, made valid.\<close>

definition search_box :: "Ext \<Rightarrow> Partition \<Rightarrow> Polyhedron \<Rightarrow> IntVec list" where
  "search_box ext pt ply =
     (case ns_PIN_MIN pt of (nMinX, nMinY, nMinZ) \<Rightarrow> case ns_PIN_MAX pt of (nMaxX, nMaxY, nMaxZ) \<Rightarrow>
      case domain_MIN pt of (sMinX, sMinY, sMinZ) \<Rightarrow> case part_dd pt of (ddX, ddY, ddZ) \<Rightarrow>
      case poly_box_MIN ply of (bMinX, bMinY, bMinZ) \<Rightarrow>
      case poly_box_MAX ply of (bMaxX, bMaxY, bMaxZ) \<Rightarrow>
        box_nodes
          (ValidNodeSpace ext (NodeSpace ext bMinX sMinX ddX (part_ng pt)) nMinX nMaxX,
           ValidNodeSpace ext (NodeSpace ext bMinY sMinY ddY (part_ng pt)) nMinY nMaxY,
           ValidNodeSpace ext (NodeSpace ext bMinZ sMinZ ddZ (part_ng pt)) nMinZ nMaxZ)
          (ValidNodeSpace ext (NodeSpace ext bMaxX sMinX ddX (part_ng pt)) nMinX nMaxX + 1,
           ValidNodeSpace ext (NodeSpace ext bMaxY sMinY ddY (part_ng pt)) nMinY nMaxY + 1,
           ValidNodeSpace ext (NodeSpace ext bMaxZ sMinZ ddZ (part_ng pt)) nMinZ nMaxZ + 1))"

text \<open>The body of the innermost loop of \<^verbatim>\<open>IdentifyGeometryNode\<close>, for polyhedron \<open>n\<close>.\<close>

definition IGN_visit ::
  "Ext \<Rightarrow> Partition \<Rightarrow> nat \<Rightarrow> Polyhedron \<Rightarrow> IntVec \<Rightarrow> (int \<Rightarrow> Node) \<Rightarrow> (int \<Rightarrow> Node)" where
  "IGN_visit ext pt n ply t nd =
     (let idx = node_index ext pt t
      in if 0 \<noteq> gid (nd idx) then nd
         else
           let p = node_point ext pt t
           in if 0 = poly_faceN ply
              then (if poly_r ply * poly_r ply \<ge> Dist2 (poly_O ply) p
                    then nd(idx := (nd idx)\<lparr>gid := int n + 1, fid := 0\<rparr>)
                    else nd)
              else (if fst (PointInPolyhedron ext p ply)
                    then nd(idx := (nd idx)\<lparr>gid := int n + 1,
                                            fid := snd (PointInPolyhedron ext p ply)\<rparr>)
                    else nd))"

text \<open>The body of the loop over the polyhedrons.\<close>

definition IGN_poly :: "Ext \<Rightarrow> Partition \<Rightarrow> Geometry \<Rightarrow> nat \<Rightarrow> (int \<Rightarrow> Node) \<Rightarrow> (int \<Rightarrow> Node)" where
  "IGN_poly ext pt g n nd =
     (if 1 = poly_state (poly g n) then nd
      else fold (IGN_visit ext pt n (poly g n)) (search_box ext pt (poly g n)) nd)"

definition IdentifyGeometryNode :: "Ext \<Rightarrow> Space \<Rightarrow> Space" where
  "IdentifyGeometryNode ext sp =
     sp\<lparr>node := fold (IGN_poly ext (part sp) (geo sp)) [0..<totN (geo sp)] (node sp)\<rparr>"

subsection \<open>Interfacial and ghost phase\<close>

text \<open>
  The inner loop \<^verbatim>\<open>for (int r = 1; r <= part->gl; ++r) if (part->pathSep[r] > n) return r;\<close>
  of \<^verbatim>\<open>InterfacialState\<close> and \<^verbatim>\<open>GhostState\<close>: the first layer whose separator lies
  beyond the path position \<open>n\<close>, if there is one.
\<close>

definition layer_of :: "Partition \<Rightarrow> nat \<Rightarrow> int option" where
  "layer_of pt n = find (\<lambda>r. pathSep pt (nat r) > int n) [1..part_gl pt]"

definition path_index :: "Ext \<Rightarrow> Partition \<Rightarrow> (nat \<Rightarrow> IntVec) \<Rightarrow> int \<Rightarrow> int \<Rightarrow> int \<Rightarrow> nat \<Rightarrow> int" where
  "path_index ext pt pth k j i n =
     (case pth n of (pX, pY, pZ) \<Rightarrow> case part_n pt of (pnX, pnY, pnZ) \<Rightarrow>
        IndexNode ext (k + pZ) (j + pY) (i + pX) pnY pnX)"

fun InterfacialState_loop ::
  "Ext \<Rightarrow> int \<Rightarrow> int \<Rightarrow> int \<Rightarrow> int \<Rightarrow> (nat \<Rightarrow> IntVec) \<Rightarrow> (int \<Rightarrow> Node) \<Rightarrow> Partition \<Rightarrow> nat list \<Rightarrow> int" where
  "InterfacialState_loop ext k j i gidv pth nd pt [] = 0"
| "InterfacialState_loop ext k j i gidv pth nd pt (n # ns) =
     (if NONE ext = gid (nd (path_index ext pt pth k j i n))
      then InterfacialState_loop ext k j i gidv pth nd pt ns
      else if gidv \<noteq> gid (nd (path_index ext pt pth k j i n))
      then (case layer_of pt n of
              Some r \<Rightarrow> r
            | None \<Rightarrow> InterfacialState_loop ext k j i gidv pth nd pt ns)
      else InterfacialState_loop ext k j i gidv pth nd pt ns)"

definition InterfacialState ::
  "Ext \<Rightarrow> int \<Rightarrow> int \<Rightarrow> int \<Rightarrow> int \<Rightarrow> int \<Rightarrow> (nat \<Rightarrow> IntVec) \<Rightarrow> (int \<Rightarrow> Node) \<Rightarrow> Partition \<Rightarrow> int" where
  "InterfacialState ext k j i gidv end pth nd pt =
     InterfacialState_loop ext k j i gidv pth nd pt [0..<nat end]"

fun GhostState_loop ::
  "Ext \<Rightarrow> int \<Rightarrow> int \<Rightarrow> int \<Rightarrow> int \<Rightarrow> (nat \<Rightarrow> IntVec) \<Rightarrow> (int \<Rightarrow> Node) \<Rightarrow> Partition \<Rightarrow> nat list \<Rightarrow> int" where
  "GhostState_loop ext k j i gidv pth nd pt [] = 0"
| "GhostState_loop ext k j i gidv pth nd pt (n # ns) =
     (if NONE ext = gid (nd (path_index ext pt pth k j i n))
      then GhostState_loop ext k j i gidv pth nd pt ns
      else if gidv = gid (nd (path_index ext pt pth k j i n))
      then (case layer_of pt n of
              Some r \<Rightarrow> r
            | None \<Rightarrow> GhostState_loop ext k j i gidv pth nd pt ns)
      else GhostState_loop ext k j i gidv pth nd pt ns)"

definition GhostState ::
  "Ext \<Rightarrow> int \<Rightarrow> int \<Rightarrow> int \<Rightarrow> int \<Rightarrow> int \<Rightarrow> (nat \<Rightarrow> IntVec) \<Rightarrow> (int \<Rightarrow> Node) \<Rightarrow> Partition \<Rightarrow> int" where
  "GhostState ext k j i gidv end pth nd pt =
     GhostState_loop ext k j i gidv pth nd pt [0..<nat end]"

text \<open>
  The first part of the loop body of \<^verbatim>\<open>IdentifyInterfacialNode\<close>: the reconstruction of
  a newly joined node. It returns when \<open>InverseDistanceWeighting\<close> does.
\<close>

definition IIN_reconstruct ::
  "Ext \<Rightarrow> Partition \<Rightarrow> Model \<Rightarrow> IntVec \<Rightarrow> (int \<Rightarrow> Node) \<Rightarrow> (int \<Rightarrow> Node) option" where
  "IIN_reconstruct ext pt model t nd =
     (case t of (k, j, i) \<Rightarrow>
        let idx = node_index ext pt t
        in if NONE ext \<noteq> fid (nd idx) \<and> 0 = gid (nd idx)
           then
             (case InverseDistanceWeighting ext (TO ext) (i, j, k) (node_point ext pt t)
                     IBM_R (NONE ext) 0 pt nd model of
                None \<Rightarrow> None
              | Some (weightSum, Uo) \<Rightarrow>
                  let Uo1 = Normalize DIMUo weightSum Uo;
                      Uo2 = Uo1[0 := Uo1 ! 4 / (Uo1 ! 5 * gasR model)]
                  in Some (nd(idx := (nd idx)
                       \<lparr>U := (U (nd idx))(TO ext := ConservativeByPrimitive ext (gamma model) Uo2),
                        fid := NONE ext\<rparr>)))
           else Some nd)"

text \<open>The second part of the loop body: the interfacial and the ghost state.\<close>

definition IIN_classify :: "Ext \<Rightarrow> Partition \<Rightarrow> IntVec \<Rightarrow> (int \<Rightarrow> Node) \<Rightarrow> (int \<Rightarrow> Node)" where
  "IIN_classify ext pt t nd =
     (case t of (k, j, i) \<Rightarrow>
        let idx = node_index ext pt t
        in if 0 = gid (nd idx) then nd
           else
             let nd1 = nd(idx := (nd idx)
                         \<lparr>lid := InterfacialState ext k j i (gid (nd idx)) (pathSep pt 0) (path pt) nd pt\<rparr>);
                 nd2 = nd1(idx := (nd1 idx)\<lparr>gst := 0\<rparr>)
             in if 0 \<noteq> lid (nd2 idx) \<and> 0 \<noteq> gid (nd2 idx)
                then nd2(idx := (nd2 idx)
                           \<lparr>gst := GhostState ext k j i 0 (pathSep pt 0) (path pt) nd2 pt\<rparr>)
                else nd2)"

definition IIN_visit ::
  "Ext \<Rightarrow> Partition \<Rightarrow> Model \<Rightarrow> IntVec \<Rightarrow> (int \<Rightarrow> Node) \<Rightarrow> (int \<Rightarrow> Node) option" where
  "IIN_visit ext pt model t nd = map_option (IIN_classify ext pt t) (IIN_reconstruct ext pt model t nd)"

text \<open>A loop whose body may not return.\<close>

fun fold_option :: "('a \<Rightarrow> 's \<Rightarrow> 's option) \<Rightarrow> 'a list \<Rightarrow> 's \<Rightarrow> 's option" where
  "fold_option f [] s = Some s"
| "fold_option f (x # xs) s = (case f x s of None \<Rightarrow> None | Some s' \<Rightarrow> fold_option f xs s')"

definition IdentifyInterfacialNode :: "Ext \<Rightarrow> Space \<Rightarrow> Model \<Rightarrow> Space option" where
  "IdentifyInterfacialNode ext sp model =
     map_option (\<lambda>nd. sp\<lparr>node := nd\<rparr>)
       (fold_option (IIN_visit ext (part sp) model) (interior (part sp)) (node sp))"

definition ComputeGeometryDomain :: "Ext \<Rightarrow> Space \<Rightarrow> Model \<Rightarrow> Space option" where
  "ComputeGeometryDomain ext sp model =
     IdentifyInterfacialNode ext (IdentifyGeometryNode ext (InitializeGeometryDomain ext sp)) model"

section \<open>Characterisations used in the statements\<close>

text \<open>
  The functions of this section are not part of the source. They name what the loops of
  the classifier compute, so that the theorems can state it: the layer of a path
  position, the first valid neighbour on the search path with a given ownership, the
  interfacial and the ghost layer that a node receives, the point-in-shape test of the
  ownership phase and the node it writes.
\<close>

definition layer_value :: "Partition \<Rightarrow> nat option \<Rightarrow> int" where
  "layer_value pt m = (case m of None \<Rightarrow> 0 | Some n \<Rightarrow> (case layer_of pt n of None \<Rightarrow> 0 | Some r \<Rightarrow> r))"

definition first_neighbour :: "Ext \<Rightarrow> Partition \<Rightarrow> (int \<Rightarrow> Node) \<Rightarrow> IntVec \<Rightarrow> (int \<Rightarrow> bool) \<Rightarrow> nat option" where
  "first_neighbour ext pt nd t P =
     (case t of (k, j, i) \<Rightarrow>
        find (\<lambda>n. NONE ext \<noteq> gid (nd (path_index ext pt (path pt) k j i n))
                 \<and> P (gid (nd (path_index ext pt (path pt) k j i n))))
          [0..<nat (pathSep pt 0)])"

definition lid_spec :: "Ext \<Rightarrow> Partition \<Rightarrow> (int \<Rightarrow> Node) \<Rightarrow> IntVec \<Rightarrow> int \<Rightarrow> int" where
  "lid_spec ext pt nd t gidv = layer_value pt (first_neighbour ext pt nd t (\<lambda>g. g \<noteq> gidv))"

definition gst_spec :: "Ext \<Rightarrow> Partition \<Rightarrow> (int \<Rightarrow> Node) \<Rightarrow> IntVec \<Rightarrow> int" where
  "gst_spec ext pt nd t = layer_value pt (first_neighbour ext pt nd t (\<lambda>g. g = 0))"

definition classified_node :: "Ext \<Rightarrow> Partition \<Rightarrow> (int \<Rightarrow> Node) \<Rightarrow> IntVec \<Rightarrow> Node \<Rightarrow> Node" where
  "classified_node ext pt nd t v =
     (if gid v = 0 then v
      else v\<lparr>lid := lid_spec ext pt nd t (gid v),
             gst := (if lid_spec ext pt nd t (gid v) \<noteq> 0 then gst_spec ext pt nd t else 0)\<rparr>)"

definition newly_joined :: "Ext \<Rightarrow> Node \<Rightarrow> bool" where
  "newly_joined ext v \<longleftrightarrow> NONE ext \<noteq> fid v \<and> gid v = 0"

definition inside_shape :: "Ext \<Rightarrow> Partition \<Rightarrow> Polyhedron \<Rightarrow> IntVec \<Rightarrow> bool" where
  "inside_shape ext pt ply t =
     (if 0 = poly_faceN ply
      then poly_r ply * poly_r ply \<ge> Dist2 (poly_O ply) (node_point ext pt t)
      else fst (PointInPolyhedron ext (node_point ext pt t) ply))"

definition IGN_node :: "Ext \<Rightarrow> Partition \<Rightarrow> nat \<Rightarrow> Polyhedron \<Rightarrow> IntVec \<Rightarrow> Node \<Rightarrow> Node" where
  "IGN_node ext pt n ply t v =
     (if 0 \<noteq> gid v then v
      else if inside_shape ext pt ply t
      then v\<lparr>gid := int n + 1,
             fid := (if 0 = poly_faceN ply then 0
                     else snd (PointInPolyhedron ext (node_point ext pt t) ply))\<rparr>
      else v)"

definition tested :: "Ext \<Rightarrow> Partition \<Rightarrow> Geometry \<Rightarrow> nat \<Rightarrow> IntVec \<Rightarrow> bool" where
  "tested ext pt g n t \<longleftrightarrow>
     poly_state (poly g n) \<noteq> 1 \<and> t \<in> set (search_box ext pt (poly g n))"

definition unowned_clear :: "Node \<Rightarrow> bool" where
  "unowned_clear v \<longleftrightarrow> (gid v = 0 \<longrightarrow> lid v = 0 \<and> gst v = 0)"

definition layers_ok :: "Partition \<Rightarrow> Node \<Rightarrow> bool" where
  "layers_ok pt v \<longleftrightarrow>
     0 \<le> lid v \<and> lid v \<le> part_gl pt \<and> 0 \<le> gst v \<and> gst v \<le> part_gl pt
     \<and> (gst v \<noteq> 0 \<longrightarrow> lid v \<noteq> 0) \<and> (gst v \<noteq> 0 \<longrightarrow> lid v \<le> gst v)"

text \<open>
  An interior node as the interfacial and ghost phase leaves it: the geometry identifier
  names a shape or is 0, an unowned node has no layer and no face, and an owned node has
  the layers that the searches find on the present store.
\<close>

definition classified :: "Ext \<Rightarrow> Partition \<Rightarrow> Geometry \<Rightarrow> (int \<Rightarrow> Node) \<Rightarrow> IntVec \<Rightarrow> bool" where
  "classified ext pt g nd t \<longleftrightarrow>
     0 \<le> gid (nd (node_index ext pt t)) \<and> gid (nd (node_index ext pt t)) \<le> int (totN g)
     \<and> (gid (nd (node_index ext pt t)) = 0 \<longrightarrow>
          lid (nd (node_index ext pt t)) = 0 \<and> gst (nd (node_index ext pt t)) = 0
          \<and> fid (nd (node_index ext pt t)) = NONE ext)
     \<and> (gid (nd (node_index ext pt t)) \<noteq> 0 \<longrightarrow>
          lid (nd (node_index ext pt t)) = lid_spec ext pt nd t (gid (nd (node_index ext pt t)))
          \<and> gst (nd (node_index ext pt t))
              = (if lid (nd (node_index ext pt t)) \<noteq> 0 then gst_spec ext pt nd t else 0))"

section \<open>A concrete grid\<close>

text \<open>
  An instance of the parameters, for the concrete runs of the theorems: a row of nine
  nodes with two exterior nodes at each end, the linear index
  \<open>(k * jMax + j) * iMax + i\<close>, node \<open>i\<close> at the coordinate \<open>i - 2\<close>, a search path of four
  offsets in two layers, the conversions of a perfect gas, and a sphere of radius 1
  around the node 6, which is at the point (4, -2, -2).
\<close>

definition ex_ext :: Ext where
  "ex_ext = \<lparr>NONE = - 1, TO = 0,
     IndexNode = (\<lambda>k j i jMax iMax. (k * jMax + j) * iMax + i),
     PointSpace = (\<lambda>i sMin d ng. sMin + real_of_int (i - ng) * d),
     NodeSpace = (\<lambda>p sMin dd ng. \<lfloor>(p - sMin) * dd + 1 / 2\<rfloor> + ng),
     ValidNodeSpace = (\<lambda>n nMin nMax. min (nMax - 1) (max nMin n)),
     PointInPolyhedron = (\<lambda>p ply. (False, 0)),
     PrimitiveByConservative = (\<lambda>g R Uc.
        [Uc ! 0, Uc ! 1 / Uc ! 0, Uc ! 2 / Uc ! 0, Uc ! 3 / Uc ! 0,
         (g - 1) * (Uc ! 4 - (Uc ! 1 * Uc ! 1 + Uc ! 2 * Uc ! 2 + Uc ! 3 * Uc ! 3) / (2 * Uc ! 0)),
         (g - 1) * (Uc ! 4 - (Uc ! 1 * Uc ! 1 + Uc ! 2 * Uc ! 2 + Uc ! 3 * Uc ! 3) / (2 * Uc ! 0))
           / (Uc ! 0 * R)]),
     ConservativeByPrimitive = (\<lambda>g Uo.
        [Uo ! 0, Uo ! 0 * Uo ! 1, Uo ! 0 * Uo ! 2, Uo ! 0 * Uo ! 3,
         Uo ! 4 / (g - 1) + Uo ! 0 * (Uo ! 1 * Uo ! 1 + Uo ! 2 * Uo ! 2 + Uo ! 3 * Uo ! 3) / 2]),
     OrthogonalSpace = (\<lambda>N. ((0, 1, 0), (0, 0, 1)))\<rparr>"

definition ex_part :: Partition where
  "ex_part = \<lparr>ns_PIN_MIN = (2, 0, 0), ns_PIN_MAX = (7, 1, 1), part_n = (9, 1, 1),
     domain_MIN = (0, 0, 0), part_d = (1, 1, 1), part_dd = (1, 1, 1),
     part_ng = 2, part_gl = 2,
     pathSep = (\<lambda>r. if r = 1 then 2 else 4),
     path = (\<lambda>n. if n = 0 then (1, 0, 0) else if n = 1 then (- 1, 0, 0)
                  else if n = 2 then (2, 0, 0) else (- 2, 0, 0)),
     tinyL = 1 / 1000\<rparr>"

definition ex_model :: Model where
  "ex_model = \<lparr>gamma = 2, gasR = 1, ibmLayer = 1\<rparr>"

definition ex_sphere :: "int \<Rightarrow> Polyhedron" where
  "ex_sphere st = \<lparr>poly_state = st, poly_faceN = 0, poly_r = 1, poly_O = (4, - 2, - 2),
     poly_box_MIN = (3, - 3, - 3), poly_box_MAX = (5, - 1, - 1), poly_cf = 1, poly_T = 350,
     poly_V = (\<lambda>_. (0, 0, 0)), poly_W = (\<lambda>_. (0, 0, 0))\<rparr>"

definition ex_geo :: "int \<Rightarrow> Geometry" where
  "ex_geo st = \<lparr>totN = 1, poly = (\<lambda>_. ex_sphere st)\<rparr>"

definition ex_cell :: "int \<Rightarrow> int \<Rightarrow> real \<Rightarrow> Node" where
  "ex_cell g f e = \<lparr>gid = g, fid = f, lid = 0, gst = 0, U = (\<lambda>_. [1, 0, 0, 0, e])\<rparr>"

definition ex_node :: "int \<Rightarrow> Node" where
  "ex_node a = (if a < 2 \<or> 6 < a then ex_cell (- 1) (- 1) 1
                else if a < 5 then ex_cell 0 (- 1) 1 else ex_cell 1 0 1)"

definition ex_space :: "int \<Rightarrow> (int \<Rightarrow> Node) \<Rightarrow> Space" where
  "ex_space st nd = \<lparr>part = ex_part, geo = ex_geo st, node = nd\<rparr>"

text \<open>The step of the interfacial and ghost phase at a node that is not newly joined.\<close>

definition classify_step :: "Ext \<Rightarrow> Partition \<Rightarrow> (int \<Rightarrow> Node) \<Rightarrow> IntVec \<Rightarrow> (int \<Rightarrow> Node) \<Rightarrow> (int \<Rightarrow> Node)" where
  "classify_step ext pt nd t s =
     s(node_index ext pt t := classified_node ext pt nd t (s (node_index ext pt t)))"

text \<open>A grid whose nodes are all unowned and carry the face identifier 0.\<close>

definition cx_node :: "int \<Rightarrow> Node" where
  "cx_node a = ex_cell 0 0 1"

text \<open>
  The ghost layer as the spec words it: the layer of the nearest valid neighbour on the
  search path that has the owner of the node itself.
\<close>

definition ghostLayer_claimed :: "Ext \<Rightarrow> Partition \<Rightarrow> (int \<Rightarrow> Node) \<Rightarrow> IntVec \<Rightarrow> int" where
  "ghostLayer_claimed ext pt nd t =
     layer_value pt (first_neighbour ext pt nd t (\<lambda>g. g = gid (nd (node_index ext pt t))))"

text \<open>
  The newly exposed node as the spec words it: the face identifier equals \<open>NONE\<close> and
  the node is unowned.
\<close>

definition newly_exposed_claimed :: "Ext \<Rightarrow> Node \<Rightarrow> bool" where
  "newly_exposed_claimed ext v \<longleftrightarrow> fid v = NONE ext \<and> gid v = 0"

text \<open>
  The concrete grid with the fluid node 3 carrying the face identifier 0 and an energy of
  5 in its flow state.
\<close>

definition c3_node :: "int \<Rightarrow> Node" where
  "c3_node a = (if a = 3 then ex_cell 0 0 5 else ex_node a)"

text \<open>The concrete grid with every interior node unowned.\<close>

definition c4_node :: "int \<Rightarrow> Node" where
  "c4_node a = (if a < 2 \<or> 6 < a then ex_cell (- 1) (- 1) 1 else ex_cell 0 (- 1) 1)"

text \<open>
  Two moving spheres around the node 6, with the same bounding box: the sphere 0 of radius
  1/2 and the sphere 1 of radius 1.
\<close>

definition c9_geo :: Geometry where
  "c9_geo = \<lparr>totN = 2, poly = (\<lambda>n. if n = 0 then (ex_sphere 0)\<lparr>poly_r := 1 / 2\<rparr> else ex_sphere 0)\<rparr>"

definition c9_space :: Space where
  "c9_space = \<lparr>part = ex_part, geo = c9_geo, node = c4_node\<rparr>"

text \<open>
  Modelled from the spec: the owner of a node as the claim words it, the lowest-indexed
  shape of the collection that contains the point of the node, and 0 when no shape
  contains it.
\<close>

definition owner_claimed :: "Ext \<Rightarrow> Partition \<Rightarrow> Geometry \<Rightarrow> IntVec \<Rightarrow> int" where
  "owner_claimed ext pt g t =
     (case find (\<lambda>n. inside_shape ext pt (poly g n) t) [0..<totN g] of
        None \<Rightarrow> 0
      | Some n \<Rightarrow> int n + 1)"

text \<open>
  Two spheres of radius 1 around the node 6, with the same bounding box: the sphere 0 is
  stationary, the sphere 1 moves. Every interior node is unowned.
\<close>

definition c9s_geo :: Geometry where
  "c9s_geo = \<lparr>totN = 2, poly = (\<lambda>n. if n = 0 then ex_sphere 1 else ex_sphere 0)\<rparr>"

definition c9s_space :: Space where
  "c9s_space = \<lparr>part = ex_part, geo = c9s_geo, node = c4_node\<rparr>"

text \<open>
  A store in which the nodes 4, 5 and 6 are owned by the sphere, for two consecutive
  classifications: all valid neighbours of the node 6 are owned by the sphere as well.
\<close>

definition c8_node :: "int \<Rightarrow> Node" where
  "c8_node a = (if a < 2 \<or> 6 < a then ex_cell (- 1) (- 1) 1
                else if a < 4 then ex_cell 0 (- 1) 1 else ex_cell 1 0 1)"

text \<open>The space after the first classification of that store.\<close>

definition c8_space :: Space where
  "c8_space = (ex_space 1 c8_node)
     \<lparr>node := fold (classify_step ex_ext ex_part c8_node) (interior ex_part) c8_node\<rparr>"

section \<open>Lemmas on the inverse distance weighting\<close>

lemma ApplyWeighting_fst:
  "fst (ApplyWeighting Uoh tiny w ws Uo) = ws + 1 / max w tiny"
  by (simp add: ApplyWeighting_def Let_def max_def)

lemma fold_upd_length:
  "length (fold (\<lambda>n V. V[n := V ! n + f n]) ns Uo) = length Uo"
  by (induction ns arbitrary: Uo) simp_all

lemma fold_upd_nth:
  "distinct ns \<Longrightarrow> c < length Uo \<Longrightarrow>
   fold (\<lambda>n V. V[n := V ! n + f n]) ns Uo ! c = (if c \<in> set ns then Uo ! c + f c else Uo ! c)"
proof (induction ns arbitrary: Uo)
  case Nil
  then show ?case by simp
next
  case (Cons a ns)
  have d: "distinct ns" and a: "a \<notin> set ns"
    using Cons.prems(1) by simp_all
  have l: "c < length (Uo[a := Uo ! a + f a])"
    using Cons.prems(2) by simp
  show ?case
  proof (cases "c = a")
    case True
    with Cons.IH [OF d l] a Cons.prems(2) show ?thesis by simp
  next
    case False
    with Cons.IH [OF d l] show ?thesis by simp
  qed
qed

lemma ApplyWeighting_length:
  "length (snd (ApplyWeighting Uoh tiny w ws Uo)) = length Uo"
  by (simp add: ApplyWeighting_def Let_def fold_upd_length)

lemma ApplyWeighting_nth:
  assumes "length Uo = DIMUo" "c < DIMUo"
  shows "snd (ApplyWeighting Uoh tiny w ws Uo) ! c = Uo ! c + Uoh ! c * (1 / max w tiny)"
  using assms by (simp add: ApplyWeighting_def Let_def fold_upd_nth max_def)

lemma IDW_visit_eq:
  "IDW_visit ext tn n p type gidq pt nd model off (tally, ws, Uo) =
     (if IDW_donor ext n type gidq pt nd off
      then (tally + 1, ws + IDW_weight ext n p pt off,
            snd (ApplyWeighting (IDW_Uoh ext tn n pt nd model off) (tinyL pt)
                   (IDW_dist2 ext n p pt off) ws Uo))
      else (tally, ws, Uo))"
  by (simp add: IDW_visit_def IDW_donor_def IDW_index_def IDW_weight_def IDW_dist2_def
      IDW_Uoh_def Let_def split_beta ApplyWeighting_fst prod_eq_iff)

lemma IDW_scan_eq:
  assumes "length Uo = DIMUo"
  shows "\<exists>Uo'. fold (IDW_visit ext tn n p type gidq pt nd model) offs (tally, ws, Uo)
      = (tally + int (length (filter (IDW_donor ext n type gidq pt nd) offs)),
         ws + (\<Sum>d\<leftarrow>filter (IDW_donor ext n type gidq pt nd) offs. IDW_weight ext n p pt d),
         Uo')
     \<and> length Uo' = DIMUo
     \<and> (\<forall>c<DIMUo. Uo' ! c = Uo ! c
          + (\<Sum>d\<leftarrow>filter (IDW_donor ext n type gidq pt nd) offs.
               IDW_weight ext n p pt d * IDW_Uoh ext tn n pt nd model d ! c))"
  using assms
proof (induction offs arbitrary: tally ws Uo)
  case Nil
  then show ?case by simp
next
  case (Cons off offs)
  show ?case
  proof (cases "IDW_donor ext n type gidq pt nd off")
    case False
    with Cons show ?thesis by (simp add: IDW_visit_eq)
  next
    case True
    let ?Uo1 = "snd (ApplyWeighting (IDW_Uoh ext tn n pt nd model off) (tinyL pt)
                   (IDW_dist2 ext n p pt off) ws Uo)"
    have len1: "length ?Uo1 = DIMUo"
      using Cons.prems by (simp add: ApplyWeighting_length)
    from Cons.IH [OF len1, of "tally + 1" "ws + IDW_weight ext n p pt off"]
    obtain Uo' where
      f: "fold (IDW_visit ext tn n p type gidq pt nd model) offs
            (tally + 1, ws + IDW_weight ext n p pt off, ?Uo1)
          = (tally + 1 + int (length (filter (IDW_donor ext n type gidq pt nd) offs)),
             ws + IDW_weight ext n p pt off
               + (\<Sum>d\<leftarrow>filter (IDW_donor ext n type gidq pt nd) offs. IDW_weight ext n p pt d),
             Uo')"
      and l: "length Uo' = DIMUo"
      and v: "\<forall>c<DIMUo. Uo' ! c = ?Uo1 ! c
          + (\<Sum>d\<leftarrow>filter (IDW_donor ext n type gidq pt nd) offs.
               IDW_weight ext n p pt d * IDW_Uoh ext tn n pt nd model d ! c)"
      by blast
    have "\<forall>c<DIMUo. Uo' ! c = Uo ! c
          + (\<Sum>d\<leftarrow>filter (IDW_donor ext n type gidq pt nd) (off # offs).
               IDW_weight ext n p pt d * IDW_Uoh ext tn n pt nd model d ! c)"
      using v True Cons.prems
      by (simp add: ApplyWeighting_nth IDW_weight_def algebra_simps)
    with f l True show ?thesis
      by (simp add: IDW_visit_eq algebra_simps)
  qed
qed

lemma IDW_loop_stop:
  "fst st \<noteq> 0 \<Longrightarrow> IDW_loop scan r st = Some st"
  by (subst IDW_loop.simps) simp

lemma IDW_loop_step:
  "fst st = 0 \<Longrightarrow> IDW_loop scan r st = IDW_loop scan (r + 1) (scan r st)"
  by (subst IDW_loop.simps) simp

lemma IDW_loop_skip:
  assumes "fst st = 0" "\<forall>r'. r \<le> r' \<and> r' < r1 \<longrightarrow> scan r' st = st" "r \<le> r1"
  shows "IDW_loop scan r st = IDW_loop scan r1 st"
  using assms
proof (induction "nat (r1 - r)" arbitrary: r)
  case 0
  then show ?case by simp
next
  case (Suc k)
  then have "r < r1" by linarith
  with Suc.prems have "scan r st = st" by simp
  moreover have "IDW_loop scan (r + 1) st = IDW_loop scan r1 st"
    using Suc by (intro Suc.hyps(1)) auto
  ultimately show ?case using Suc.prems(1) by (simp add: IDW_loop_step)
qed

lemma IDW_loop_Some_D:
  assumes "IDW_loop scan r st = Some y" "fst st = 0"
  shows "\<exists>r'\<ge>r. scan r' st \<noteq> st"
proof -
  have "fst st = 0 \<longrightarrow> (\<exists>r'\<ge>r. scan r' st \<noteq> st)"
  proof (rule IDW_loop.raw_induct
      [where P = "\<lambda>scan r st y. fst st = 0 \<longrightarrow> (\<exists>r'\<ge>r. scan r' st \<noteq> st)", OF _ assms(1)])
    fix loop :: "(int \<Rightarrow> IDWState \<Rightarrow> IDWState) \<Rightarrow> int \<Rightarrow> IDWState \<Rightarrow> IDWState option"
    fix scan r st y
    assume IH: "\<And>scan r st y. loop scan r st = Some y \<Longrightarrow>
                  fst st = 0 \<longrightarrow> (\<exists>r'\<ge>r. scan r' st \<noteq> st)"
      and eq: "(if 0 = fst st then loop scan (r + 1) (scan r st) else Some st) = Some y"
    show "fst st = 0 \<longrightarrow> (\<exists>r'\<ge>r. scan r' st \<noteq> st)"
    proof
      assume z: "fst st = 0"
      show "\<exists>r'\<ge>r. scan r' st \<noteq> st"
      proof (cases "scan r st = st")
        case False
        then show ?thesis by auto
      next
        case True
        with eq z have "loop scan (r + 1) st = Some y" by simp
        from IH [OF this] z obtain r' where "r' \<ge> r + 1" "scan r' st \<noteq> st" by auto
        then show ?thesis by (intro exI [of _ r']) auto
      qed
    qed
  qed
  with assms show ?thesis by simp
qed

lemma IDW_loop_None:
  assumes "fst st = 0" "\<forall>r'\<ge>r. scan r' st = st"
  shows "IDW_loop scan r st = None"
proof (cases "IDW_loop scan r st")
  case None
  then show ?thesis .
next
  case (Some y)
  from IDW_loop_Some_D [OF Some assms(1)] assms(2) show ?thesis by auto
qed

lemma IDW_scan_empty:
  assumes "IDW_donors ext n type gidq pt nd r = []"
  shows "fold (IDW_visit ext tn n p type gidq pt nd model) (cube r) (0, 0, replicate DIMUo 0)
         = (0, 0, replicate DIMUo 0)"
proof -
  from IDW_scan_eq [of "replicate DIMUo 0" ext tn n p type gidq pt nd model "cube r" 0 0]
  obtain Uo' where
    f: "fold (IDW_visit ext tn n p type gidq pt nd model) (cube r) (0, 0, replicate DIMUo 0)
        = (0, 0, Uo')"
    and l: "length Uo' = DIMUo"
    and v: "\<forall>c<DIMUo. Uo' ! c = replicate DIMUo 0 ! c"
    using assms by (auto simp: IDW_donors_def)
  have "Uo' = replicate DIMUo 0"
    using l v by (intro nth_equalityI) auto
  with f show ?thesis by simp
qed

lemma IDW_scan_donors:
  "\<exists>Uo. fold (IDW_visit ext tn n p type gidq pt nd model) (cube r) (0, 0, replicate DIMUo 0)
      = (int (length (IDW_donors ext n type gidq pt nd r)),
         (\<Sum>d\<leftarrow>IDW_donors ext n type gidq pt nd r. 1 / max (IDW_dist2 ext n p pt d) (tinyL pt)),
         Uo)
     \<and> length Uo = DIMUo
     \<and> (\<forall>c<DIMUo. Uo ! c =
          (\<Sum>d\<leftarrow>IDW_donors ext n type gidq pt nd r.
             1 / max (IDW_dist2 ext n p pt d) (tinyL pt) * IDW_Uoh ext tn n pt nd model d ! c))"
  using IDW_scan_eq [of "replicate DIMUo 0" ext tn n p type gidq pt nd model "cube r" 0 0]
  by (auto simp: IDW_donors_def IDW_weight_def)

lemma IDW_returns:
  assumes "h \<le> r" "IDW_donors ext n type gidq pt nd r \<noteq> []"
    and "\<forall>r'. h \<le> r' \<and> r' < r \<longrightarrow> IDW_donors ext n type gidq pt nd r' = []"
  shows "\<exists>Uo. InverseDistanceWeighting ext tn n p h type gidq pt nd model
      = Some ((\<Sum>d\<leftarrow>IDW_donors ext n type gidq pt nd r.
                 1 / max (IDW_dist2 ext n p pt d) (tinyL pt)), Uo)
     \<and> length Uo = DIMUo
     \<and> (\<forall>c<DIMUo. Uo ! c =
          (\<Sum>d\<leftarrow>IDW_donors ext n type gidq pt nd r.
             1 / max (IDW_dist2 ext n p pt d) (tinyL pt) * IDW_Uoh ext tn n pt nd model d ! c))"
proof -
  let ?scan = "\<lambda>r. fold (IDW_visit ext tn n p type gidq pt nd model) (cube r)"
  let ?st0 = "(0, 0, replicate DIMUo 0) :: IDWState"
  have skip: "IDW_loop ?scan h ?st0 = IDW_loop ?scan r ?st0"
    using assms(1,3) by (intro IDW_loop_skip) (auto simp: IDW_scan_empty)
  from IDW_scan_donors [of ext tn n p type gidq pt nd model r]
  obtain Uo where
    f: "?scan r ?st0 = (int (length (IDW_donors ext n type gidq pt nd r)),
         (\<Sum>d\<leftarrow>IDW_donors ext n type gidq pt nd r. 1 / max (IDW_dist2 ext n p pt d) (tinyL pt)),
         Uo)"
    and l: "length Uo = DIMUo"
    and v: "\<forall>c<DIMUo. Uo ! c =
          (\<Sum>d\<leftarrow>IDW_donors ext n type gidq pt nd r.
             1 / max (IDW_dist2 ext n p pt d) (tinyL pt) * IDW_Uoh ext tn n pt nd model d ! c)"
    by blast
  have "fst (?scan r ?st0) \<noteq> 0"
    using f assms(2) by simp
  then have "IDW_loop ?scan (r + 1) (?scan r ?st0) = Some (?scan r ?st0)"
    by (rule IDW_loop_stop)
  then have "IDW_loop ?scan r ?st0 = Some (?scan r ?st0)"
    by (simp add: IDW_loop_step)
  with skip f l v show ?thesis
    by (simp add: InverseDistanceWeighting_def)
qed

lemma IDW_diverges:
  assumes "\<forall>r\<ge>h. IDW_donors ext n type gidq pt nd r = []"
  shows "InverseDistanceWeighting ext tn n p h type gidq pt nd model = None"
  using assms
  by (simp add: InverseDistanceWeighting_def IDW_loop_None IDW_scan_empty)

lemma first_radius:
  assumes "\<exists>r\<ge>h. P (r :: int)"
  shows "\<exists>r\<ge>h. P r \<and> (\<forall>r'. h \<le> r' \<and> r' < r \<longrightarrow> \<not> P r')"
proof -
  from assms obtain r0 where r0: "h \<le> r0" "P r0" by blast
  define Q where "Q k = P (h + int k)" for k
  have "Q (nat (r0 - h))" using r0 by (simp add: Q_def)
  then obtain k where k: "Q k" "\<forall>m<k. \<not> Q m"
    using exists_least_iff [of Q] by blast
  have "\<forall>r'. h \<le> r' \<and> r' < h + int k \<longrightarrow> \<not> P r'"
  proof (intro allI impI)
    fix r' assume a: "h \<le> r' \<and> r' < h + int k"
    then have "nat (r' - h) < k" by linarith
    with k(2) have "\<not> Q (nat (r' - h))" by blast
    with a show "\<not> P r'" by (simp add: Q_def)
  qed
  with k(1) show ?thesis
    by (intro exI [of _ "h + int k"]) (simp add: Q_def)
qed

lemma IDW_Some_D:
  assumes "InverseDistanceWeighting ext tn n p h type gidq pt nd model = Some (weightSum, Uo)"
  shows "\<exists>r\<ge>h. IDW_donors ext n type gidq pt nd r \<noteq> []
     \<and> (\<forall>r'. h \<le> r' \<and> r' < r \<longrightarrow> IDW_donors ext n type gidq pt nd r' = [])
     \<and> weightSum = (\<Sum>d\<leftarrow>IDW_donors ext n type gidq pt nd r.
                 1 / max (IDW_dist2 ext n p pt d) (tinyL pt))
     \<and> length Uo = DIMUo
     \<and> (\<forall>c<DIMUo. Uo ! c =
          (\<Sum>d\<leftarrow>IDW_donors ext n type gidq pt nd r.
             1 / max (IDW_dist2 ext n p pt d) (tinyL pt) * IDW_Uoh ext tn n pt nd model d ! c))"
proof -
  have "\<exists>r\<ge>h. IDW_donors ext n type gidq pt nd r \<noteq> []"
  proof (rule ccontr)
    assume "\<not> ?thesis"
    then have "\<forall>r\<ge>h. IDW_donors ext n type gidq pt nd r = []" by blast
    from IDW_diverges [OF this] assms show False by simp
  qed
  from first_radius [of h "\<lambda>r. IDW_donors ext n type gidq pt nd r \<noteq> []", OF this]
  obtain r where r: "h \<le> r" "IDW_donors ext n type gidq pt nd r \<noteq> []"
    "\<forall>r'. h \<le> r' \<and> r' < r \<longrightarrow> IDW_donors ext n type gidq pt nd r' = []"
    by auto
  from IDW_returns [OF r, of tn p model] assms r show ?thesis
    by (intro exI [of _ r]) auto
qed

lemma sum_list_pos_real:
  fixes f :: "'a \<Rightarrow> real"
  assumes "xs \<noteq> []" "\<forall>x\<in>set xs. 0 < f x"
  shows "0 < (\<Sum>x\<leftarrow>xs. f x)"
  using assms
proof (induction xs)
  case Nil
  then show ?case by simp
next
  case (Cons a xs)
  then show ?case
    by (cases xs) (auto intro: add_pos_pos)
qed

lemma sum_list_divide_real:
  fixes f :: "'a \<Rightarrow> real"
  shows "(\<Sum>x\<leftarrow>xs. f x / w) = (\<Sum>x\<leftarrow>xs. f x) / w"
  by (induction xs) (simp_all add: add_divide_distrib)

lemma sum_list_divide_times_real:
  fixes f g :: "'a \<Rightarrow> real"
  shows "(\<Sum>x\<leftarrow>xs. f x / w * g x) = (\<Sum>x\<leftarrow>xs. f x * g x) / w"
  by (induction xs) (simp_all add: add_divide_distrib)

section \<open>Lemmas on the node classification\<close>

lemma layer_of_Some_D:
  assumes "layer_of pt n = Some r"
  shows "1 \<le> r \<and> r \<le> part_gl pt \<and> int n < pathSep pt (nat r)
       \<and> (\<forall>r'. 1 \<le> r' \<and> r' < r \<longrightarrow> \<not> int n < pathSep pt (nat r'))"
proof -
  from assms obtain m where m: "m < length [1..part_gl pt]" "int n < pathSep pt (nat ([1..part_gl pt] ! m))"
    "r = [1..part_gl pt] ! m" "\<forall>q<m. \<not> int n < pathSep pt (nat ([1..part_gl pt] ! q))"
    unfolding layer_of_def find_Some_iff by blast
  have idx: "[1..part_gl pt] ! q = 1 + int q" if "q \<le> m" for q
    using that m(1) by (intro nth_upto) auto
  have r: "r = 1 + int m" using m(3) idx [of m] by simp
  have "\<not> int n < pathSep pt (nat r')" if "1 \<le> r'" "r' < r" for r'
  proof -
    have "nat (r' - 1) < m" using that r by linarith
    with m(4) idx [of "nat (r' - 1)"] that show ?thesis by auto
  qed
  with m r idx [of m] show ?thesis by auto
qed

lemma layer_of_None_D:
  assumes "layer_of pt n = None" "1 \<le> r" "r \<le> part_gl pt"
  shows "\<not> int n < pathSep pt (nat r)"
  using assms unfolding layer_of_def find_None_iff by auto

lemma layer_of_mono:
  assumes "n \<le> n'" "layer_of pt n' = Some r'"
  shows "\<exists>r. layer_of pt n = Some r \<and> r \<le> r'"
proof (cases "layer_of pt n")
  case None
  from layer_of_Some_D [OF assms(2)] have "1 \<le> r'" "r' \<le> part_gl pt" "int n' < pathSep pt (nat r')"
    by auto
  with layer_of_None_D [OF None, of r'] assms(1) show ?thesis by auto
next
  case (Some r)
  have "r \<le> r'"
  proof (rule ccontr)
    assume "\<not> r \<le> r'"
    then have "r' < r" by simp
    moreover from layer_of_Some_D [OF assms(2)] have "1 \<le> r'" "int n' < pathSep pt (nat r')" by auto
    ultimately show False
      using layer_of_Some_D [OF Some] assms(1) by auto
  qed
  with Some show ?thesis by simp
qed

lemma layer_value_range:
  "layer_value pt m = 0 \<or> (1 \<le> layer_value pt m \<and> layer_value pt m \<le> part_gl pt)"
  by (auto simp: layer_value_def dest: layer_of_Some_D split: option.splits)

lemma InterfacialState_loop_eq:
  assumes "sorted ns"
  shows "InterfacialState_loop ext k j i gidv pth nd pt ns =
     layer_value pt (find (\<lambda>n. NONE ext \<noteq> gid (nd (path_index ext pt pth k j i n))
                              \<and> gid (nd (path_index ext pt pth k j i n)) \<noteq> gidv) ns)"
  using assms
proof (induction ns)
  case Nil
  then show ?case by (simp add: layer_value_def)
next
  case (Cons n ns)
  let ?P = "\<lambda>n. NONE ext \<noteq> gid (nd (path_index ext pt pth k j i n))
                \<and> gid (nd (path_index ext pt pth k j i n)) \<noteq> gidv"
  from Cons have IH: "InterfacialState_loop ext k j i gidv pth nd pt ns = layer_value pt (find ?P ns)"
    by simp
  show ?case
  proof (cases "?P n")
    case False
    then show ?thesis using IH by auto
  next
    case True
    show ?thesis
    proof (cases "layer_of pt n")
      case (Some r)
      with True show ?thesis by (auto simp: layer_value_def)
    next
      case None
      have "layer_value pt (find ?P ns) = 0"
      proof (cases "find ?P ns")
        case None
        then show ?thesis by (simp add: layer_value_def)
      next
        case (Some n')
        then have "n' \<in> set ns" by (auto simp: find_Some_iff)
        with Cons.prems have "n \<le> n'" by auto
        have "layer_of pt n' = None"
        proof (cases "layer_of pt n'")
          case (Some r')
          from layer_of_mono [OF \<open>n \<le> n'\<close> Some] None show ?thesis by simp
        qed simp
        with Some show ?thesis by (simp add: layer_value_def)
      qed
      with True None IH show ?thesis by (auto simp: layer_value_def)
    qed
  qed
qed

lemma GhostState_loop_eq:
  assumes "sorted ns"
  shows "GhostState_loop ext k j i gidv pth nd pt ns =
     layer_value pt (find (\<lambda>n. NONE ext \<noteq> gid (nd (path_index ext pt pth k j i n))
                              \<and> gid (nd (path_index ext pt pth k j i n)) = gidv) ns)"
  using assms
proof (induction ns)
  case Nil
  then show ?case by (simp add: layer_value_def)
next
  case (Cons n ns)
  let ?P = "\<lambda>n. NONE ext \<noteq> gid (nd (path_index ext pt pth k j i n))
                \<and> gid (nd (path_index ext pt pth k j i n)) = gidv"
  from Cons have IH: "GhostState_loop ext k j i gidv pth nd pt ns = layer_value pt (find ?P ns)"
    by simp
  show ?case
  proof (cases "?P n")
    case False
    then show ?thesis using IH by auto
  next
    case True
    show ?thesis
    proof (cases "layer_of pt n")
      case (Some r)
      with True show ?thesis by (auto simp: layer_value_def)
    next
      case None
      have "layer_value pt (find ?P ns) = 0"
      proof (cases "find ?P ns")
        case None
        then show ?thesis by (simp add: layer_value_def)
      next
        case (Some n')
        then have "n' \<in> set ns" by (auto simp: find_Some_iff)
        with Cons.prems have "n \<le> n'" by auto
        have "layer_of pt n' = None"
        proof (cases "layer_of pt n'")
          case (Some r')
          from layer_of_mono [OF \<open>n \<le> n'\<close> Some] None show ?thesis by simp
        qed simp
        with Some show ?thesis by (simp add: layer_value_def)
      qed
      with True None IH show ?thesis by (auto simp: layer_value_def)
    qed
  qed
qed

lemma InterfacialState_eq:
  "InterfacialState ext k j i gidv (pathSep pt 0) (path pt) nd pt =
     layer_value pt (first_neighbour ext pt nd (k, j, i) (\<lambda>g. g \<noteq> gidv))"
  by (simp add: InterfacialState_def first_neighbour_def InterfacialState_loop_eq)

lemma GhostState_eq:
  "GhostState ext k j i gidv (pathSep pt 0) (path pt) nd pt =
     layer_value pt (first_neighbour ext pt nd (k, j, i) (\<lambda>g. g = gidv))"
  by (simp add: GhostState_def first_neighbour_def GhostState_loop_eq)

lemma find_upt_Some:
  "find P [0..<m] = Some n \<longleftrightarrow> n < m \<and> P n \<and> (\<forall>q<n. \<not> P q)"
  by (auto simp: find_Some_iff)

lemma find_upt_None:
  "find P [0..<m] = None \<longleftrightarrow> (\<forall>n<m. \<not> P n)"
  by (auto simp: find_None_iff)

lemma first_neighbour_cong:
  assumes "\<forall>a. gid (nd a) = gid (nd' a)"
  shows "first_neighbour ext pt nd t P = first_neighbour ext pt nd' t P"
  using assms by (simp add: first_neighbour_def split_beta)

lemma ghost_le_layer:
  assumes "gidv \<noteq> 0"
    and "layer_value pt (first_neighbour ext pt nd t (\<lambda>g. g = 0)) \<noteq> 0"
  shows "layer_value pt (first_neighbour ext pt nd t (\<lambda>g. g \<noteq> gidv)) \<noteq> 0
       \<and> layer_value pt (first_neighbour ext pt nd t (\<lambda>g. g \<noteq> gidv))
           \<le> layer_value pt (first_neighbour ext pt nd t (\<lambda>g. g = 0))"
proof -
  obtain k j i where t: "t = (k, j, i)" by (cases t) auto
  let ?g = "\<lambda>n. gid (nd (path_index ext pt (path pt) k j i n))"
  let ?m = "nat (pathSep pt 0)"
  from assms(2) obtain nf rf where nf: "find (\<lambda>n. NONE ext \<noteq> ?g n \<and> ?g n = 0) [0..<?m] = Some nf"
    and rf: "layer_of pt nf = Some rf"
    by (auto simp: layer_value_def first_neighbour_def t split: option.splits)
  from nf have nf': "nf < ?m" "NONE ext \<noteq> ?g nf" "?g nf = 0"
    by (auto simp: find_upt_Some)
  have "\<exists>nh. find (\<lambda>n. NONE ext \<noteq> ?g n \<and> ?g n \<noteq> gidv) [0..<?m] = Some nh"
  proof (cases "find (\<lambda>n. NONE ext \<noteq> ?g n \<and> ?g n \<noteq> gidv) [0..<?m]")
    case None
    with nf' assms(1) show ?thesis by (auto simp: find_upt_None)
  qed simp
  then obtain nh where nh: "find (\<lambda>n. NONE ext \<noteq> ?g n \<and> ?g n \<noteq> gidv) [0..<?m] = Some nh"
    by blast
  have "nh \<le> nf"
  proof (rule ccontr)
    assume "\<not> nh \<le> nf"
    then have "nf < nh" by simp
    with nh nf' assms(1) show False by (auto simp: find_upt_Some)
  qed
  from layer_of_mono [OF this rf] obtain rh where rh: "layer_of pt nh = Some rh" "rh \<le> rf"
    by blast
  from layer_of_Some_D [OF rh(1)] have "1 \<le> rh" by simp
  with nf rf nh rh show ?thesis
    by (simp add: layer_value_def first_neighbour_def t)
qed

subsection \<open>Loops that write one node per step\<close>

lemma fold_option_Some:
  "fold_option (\<lambda>t s. Some (f t s)) ts s = Some (fold f ts s)"
  by (induction ts arbitrary: s) simp_all

lemma fold_option_inv:
  assumes "fold_option f ts s = Some s'" "P s"
    and "\<And>t s s1. f t s = Some s1 \<Longrightarrow> P s \<Longrightarrow> P s1"
  shows "P s'"
  using assms(1,2)
proof (induction ts arbitrary: s)
  case Nil
  then show ?case by simp
next
  case (Cons x xs)
  then obtain s1 where s1: "f x s = Some s1" "fold_option f xs s1 = Some s'"
    by (auto split: option.splits)
  from assms(3) [OF s1(1) Cons.prems(2)] Cons.IH [OF s1(2)] show ?case by blast
qed

lemma fold_inv:
  assumes "P s" "\<And>t s. P s \<Longrightarrow> P (f t s)"
  shows "P (fold f ts s)"
  using assms(1) by (induction ts arbitrary: s) (simp_all add: assms(2))

lemma fold_option_other:
  assumes "fold_option f ts s = Some s'"
    and "\<And>t s s1 a. f t s = Some s1 \<Longrightarrow> a \<noteq> ix t \<Longrightarrow> s1 a = s a"
    and "a \<notin> ix ` set ts"
  shows "s' a = s a"
  using assms(1,3)
proof (induction ts arbitrary: s)
  case Nil
  then show ?case by simp
next
  case (Cons x xs)
  then obtain s1 where s1: "f x s = Some s1" "fold_option f xs s1 = Some s'"
    by (auto split: option.splits)
  have "s1 a = s a" using assms(2) [OF s1(1)] Cons.prems(2) by auto
  moreover have "s' a = s1 a" using Cons.IH [OF s1(2)] Cons.prems(2) by auto
  ultimately show ?case by simp
qed

lemma fold_option_post:
  assumes "fold_option f ts s = Some s'"
    and "\<And>t s s1 a. f t s = Some s1 \<Longrightarrow> A (s a) \<Longrightarrow> A (s1 a)"
    and "\<And>t s s1 a. f t s = Some s1 \<Longrightarrow> B (s a) \<Longrightarrow> B (s1 a)"
    and "\<And>t s s1. f t s = Some s1 \<Longrightarrow> A (s (ix t)) \<Longrightarrow> B (s1 (ix t))"
    and "\<forall>t\<in>set ts. A (s (ix t))"
  shows "\<forall>t\<in>set ts. B (s' (ix t))"
  using assms(1,5)
proof (induction ts arbitrary: s)
  case Nil
  then show ?case by simp
next
  case (Cons x xs)
  then obtain s1 where s1: "f x s = Some s1" "fold_option f xs s1 = Some s'"
    by (auto split: option.splits)
  have A1: "\<forall>t\<in>set xs. A (s1 (ix t))"
    using assms(2) [OF s1(1)] Cons.prems(2) by auto
  have "B (s1 (ix x))"
    using assms(4) [OF s1(1)] Cons.prems(2) by auto
  then have "B (s' (ix x))"
    using fold_option_inv [OF s1(2), of "\<lambda>s. B (s (ix x))"] assms(3) by blast
  with Cons.IH [OF s1(2) A1] show ?case by auto
qed

lemma fold_option_at:
  assumes "fold_option f ts s = Some s'"
    and "distinct (map ix ts)"
    and "\<And>t s s1 a. f t s = Some s1 \<Longrightarrow> a \<noteq> ix t \<Longrightarrow> s1 a = s a"
    and "I s"
    and "\<And>t s s1. f t s = Some s1 \<Longrightarrow> I s \<Longrightarrow> I s1"
    and "\<And>t s s1. f t s = Some s1 \<Longrightarrow> I s \<Longrightarrow> P t (s (ix t)) (s1 (ix t))"
    and "t \<in> set ts"
  shows "P t (s (ix t)) (s' (ix t))"
  using assms(1,2,4,7)
proof (induction ts arbitrary: s)
  case Nil
  then show ?case by simp
next
  case (Cons x xs)
  then obtain s1 where s1: "f x s = Some s1" "fold_option f xs s1 = Some s'"
    by (auto split: option.splits)
  have I1: "I s1" using assms(5) [OF s1(1) Cons.prems(3)] .
  have d: "distinct (map ix xs)" "ix x \<notin> ix ` set xs"
    using Cons.prems(2) by auto
  show ?case
  proof (cases "t = x")
    case True
    have "s' (ix x) = s1 (ix x)"
      using fold_option_other [OF s1(2), of ix "ix x"] assms(3) d(2) by blast
    with assms(6) [OF s1(1) Cons.prems(3)] True show ?thesis by simp
  next
    case False
    with Cons.prems(4) have t: "t \<in> set xs" by simp
    then have "ix t \<noteq> ix x" using d(2) by (metis imageI)
    with assms(3) [OF s1(1)] have "s1 (ix t) = s (ix t)" by blast
    with Cons.IH [OF s1(2) d(1) I1 t] show ?thesis by simp
  qed
qed

subsection \<open>The node lists\<close>

lemma box_nodes_product:
  "box_nodes (xMin, yMin, zMin) (xMax, yMax, zMax) =
     List.product [zMin..zMax - 1] (List.product [yMin..yMax - 1] [xMin..xMax - 1])"
  by (simp add: box_nodes_def product_concat_map map_concat comp_def)

lemma distinct_box_nodes: "distinct (box_nodes lo hi)"
proof -
  obtain a b c d e f where "lo = (a, b, c)" "hi = (d, e, f)"
    by (cases lo, cases hi) auto
  then show ?thesis
    by (simp add: box_nodes_product distinct_product)
qed

lemma distinct_interior: "distinct (interior pt)"
  by (simp add: interior_def distinct_box_nodes)

lemma distinct_search_box: "distinct (search_box ext pt ply)"
  by (simp add: search_box_def split_beta distinct_box_nodes)

subsection \<open>One step of the interfacial and ghost phase\<close>

lemma lid_spec_cong:
  "\<forall>a. gid (nd a) = gid (nd' a) \<Longrightarrow> lid_spec ext pt nd t g = lid_spec ext pt nd' t g"
  by (simp add: lid_spec_def first_neighbour_cong [of nd nd'])

lemma gst_spec_cong:
  "\<forall>a. gid (nd a) = gid (nd' a) \<Longrightarrow> gst_spec ext pt nd t = gst_spec ext pt nd' t"
  by (simp add: gst_spec_def first_neighbour_cong [of nd nd'])

lemma classified_node_cong:
  "\<forall>a. gid (nd a) = gid (nd' a) \<Longrightarrow> classified_node ext pt nd t v = classified_node ext pt nd' t v"
  by (simp add: classified_node_def lid_spec_cong [of nd nd'] gst_spec_cong [of nd nd'])

lemma IIN_classify_eq:
  "IIN_classify ext pt t nd =
     nd(node_index ext pt t := classified_node ext pt nd t (nd (node_index ext pt t)))"
proof -
  obtain k j i where t: "t = (k, j, i)" by (cases t) auto
  let ?idx = "node_index ext pt t"
  let ?L = "InterfacialState ext k j i (gid (nd ?idx)) (pathSep pt 0) (path pt) nd pt"
  let ?nd2 = "nd(?idx := (nd ?idx)\<lparr>lid := ?L, gst := 0\<rparr>)"
  have L: "?L = lid_spec ext pt nd t (gid (nd ?idx))"
    by (simp add: InterfacialState_eq lid_spec_def t)
  have fn: "first_neighbour ext pt ?nd2 (k, j, i) (\<lambda>g. g = 0)
      = first_neighbour ext pt nd (k, j, i) (\<lambda>g. g = 0)"
    by (rule first_neighbour_cong) simp
  have G: "GhostState ext k j i 0 (pathSep pt 0) (path pt) ?nd2 pt = gst_spec ext pt nd t"
    using fn by (simp add: GhostState_eq gst_spec_def t)
  show ?thesis
  proof (cases "gid (nd ?idx) = 0")
    case True
    then show ?thesis
      by (simp add: IIN_classify_def t Let_def classified_node_def)
  next
    case False
    have "IIN_classify ext pt t nd =
        (if 0 \<noteq> ?L then ?nd2(?idx := (?nd2 ?idx)\<lparr>gst := GhostState ext k j i 0 (pathSep pt 0) (path pt) ?nd2 pt\<rparr>)
         else ?nd2)"
      using False by (simp add: IIN_classify_def t Let_def)
    also have "\<dots> = nd(?idx := classified_node ext pt nd t (nd ?idx))"
      using False unfolding G by (simp add: classified_node_def L [symmetric])
    finally show ?thesis .
  qed
qed

lemma IIN_reconstruct_D:
  assumes "IIN_reconstruct ext pt model t nd = Some nd1"
  shows "(\<not> newly_joined ext (nd (node_index ext pt t)) \<and> nd1 = nd)
       \<or> (newly_joined ext (nd (node_index ext pt t))
          \<and> (\<exists>weightSum Uo.
                InverseDistanceWeighting ext (TO ext) (snd (snd t), fst (snd t), fst t)
                  (node_point ext pt t) IBM_R (NONE ext) 0 pt nd model = Some (weightSum, Uo)
              \<and> nd1 = nd(node_index ext pt t := (nd (node_index ext pt t))
                   \<lparr>U := (U (nd (node_index ext pt t)))
                      (TO ext := ConservativeByPrimitive ext (gamma model)
                         ((Normalize DIMUo weightSum Uo)
                            [0 := Normalize DIMUo weightSum Uo ! 4
                                  / (Normalize DIMUo weightSum Uo ! 5 * gasR model)])),
                    fid := NONE ext\<rparr>)))"
  using assms
  by (auto simp: IIN_reconstruct_def newly_joined_def Let_def split_beta
      split: if_splits option.splits)

lemma IIN_reconstruct_not_newly:
  "\<not> newly_joined ext (nd (node_index ext pt t)) \<Longrightarrow> IIN_reconstruct ext pt model t nd = Some nd"
  by (auto simp: IIN_reconstruct_def newly_joined_def Let_def split_beta)

lemma IIN_visit_not_newly:
  "\<not> newly_joined ext (nd (node_index ext pt t)) \<Longrightarrow>
   IIN_visit ext pt model t nd =
     Some (nd(node_index ext pt t := classified_node ext pt nd t (nd (node_index ext pt t))))"
  by (simp add: IIN_visit_def IIN_reconstruct_not_newly IIN_classify_eq)

lemma IIN_visit_D:
  assumes "IIN_visit ext pt model t nd = Some nd2"
  shows "\<exists>v1. nd2 = nd(node_index ext pt t := classified_node ext pt nd t v1)
     \<and> gid v1 = gid (nd (node_index ext pt t))
     \<and> lid v1 = lid (nd (node_index ext pt t))
     \<and> gst v1 = gst (nd (node_index ext pt t))
     \<and> (\<not> newly_joined ext (nd (node_index ext pt t)) \<longrightarrow> v1 = nd (node_index ext pt t))
     \<and> (newly_joined ext (nd (node_index ext pt t)) \<longrightarrow> fid v1 = NONE ext
          \<and> (\<exists>weightSum Uo.
                InverseDistanceWeighting ext (TO ext) (snd (snd t), fst (snd t), fst t)
                  (node_point ext pt t) IBM_R (NONE ext) 0 pt nd model = Some (weightSum, Uo)
              \<and> U v1 = (U (nd (node_index ext pt t)))
                      (TO ext := ConservativeByPrimitive ext (gamma model)
                         ((Normalize DIMUo weightSum Uo)
                            [0 := Normalize DIMUo weightSum Uo ! 4
                                  / (Normalize DIMUo weightSum Uo ! 5 * gasR model)]))))"
proof -
  let ?idx = "node_index ext pt t"
  from assms obtain nd1 where r: "IIN_reconstruct ext pt model t nd = Some nd1"
    and c: "nd2 = IIN_classify ext pt t nd1"
    by (auto simp: IIN_visit_def)
  have g: "\<forall>a. gid (nd1 a) = gid (nd a)"
    using IIN_reconstruct_D [OF r] by auto
  have o: "nd1 = nd(?idx := nd1 ?idx)"
    using IIN_reconstruct_D [OF r] by auto
  have "nd2 = nd1(?idx := classified_node ext pt nd t (nd1 ?idx))"
    unfolding c IIN_classify_eq using classified_node_cong [OF g] by simp
  also have "\<dots> = nd(?idx := classified_node ext pt nd t (nd1 ?idx))"
    by (subst o) simp
  finally have "nd2 = nd(?idx := classified_node ext pt nd t (nd1 ?idx))" .
  moreover have "gid (nd1 ?idx) = gid (nd ?idx)" "lid (nd1 ?idx) = lid (nd ?idx)"
    "gst (nd1 ?idx) = gst (nd ?idx)"
    using IIN_reconstruct_D [OF r] by auto
  moreover have "\<not> newly_joined ext (nd ?idx) \<longrightarrow> nd1 ?idx = nd ?idx"
    using IIN_reconstruct_D [OF r] by auto
  moreover have "newly_joined ext (nd ?idx) \<longrightarrow> fid (nd1 ?idx) = NONE ext
          \<and> (\<exists>weightSum Uo.
                InverseDistanceWeighting ext (TO ext) (snd (snd t), fst (snd t), fst t)
                  (node_point ext pt t) IBM_R (NONE ext) 0 pt nd model = Some (weightSum, Uo)
              \<and> U (nd1 ?idx) = (U (nd ?idx))
                      (TO ext := ConservativeByPrimitive ext (gamma model)
                         ((Normalize DIMUo weightSum Uo)
                            [0 := Normalize DIMUo weightSum Uo ! 4
                                  / (Normalize DIMUo weightSum Uo ! 5 * gasR model)])))"
    using IIN_reconstruct_D [OF r] by auto
  ultimately show ?thesis by blast
qed

lemma IIN_visit_other:
  "IIN_visit ext pt model t nd = Some nd2 \<Longrightarrow> a \<noteq> node_index ext pt t \<Longrightarrow> nd2 a = nd a"
  by (drule IIN_visit_D) auto

lemma IIN_visit_gid:
  "IIN_visit ext pt model t nd = Some nd2 \<Longrightarrow> gid (nd2 a) = gid (nd a)"
  by (drule IIN_visit_D) (auto simp: classified_node_def split: if_splits)

lemma IIN_visit_unowned:
  "IIN_visit ext pt model t nd = Some nd2 \<Longrightarrow> gid (nd a) = 0 \<Longrightarrow>
   lid (nd2 a) = lid (nd a) \<and> gst (nd2 a) = gst (nd a)"
  by (drule IIN_visit_D) (auto simp: classified_node_def split: if_splits)

lemma IIN_visit_old:
  "IIN_visit ext pt model t nd = Some nd2 \<Longrightarrow> \<not> newly_joined ext (nd a) \<Longrightarrow>
   U (nd2 a) = U (nd a) \<and> fid (nd2 a) = fid (nd a)"
  by (drule IIN_visit_D) (auto simp: classified_node_def split: if_splits)

lemma IIN_visit_owned:
  assumes "IIN_visit ext pt model t nd = Some nd2" "gid (nd (node_index ext pt t)) \<noteq> 0"
  shows "lid (nd2 (node_index ext pt t)) = lid_spec ext pt nd t (gid (nd (node_index ext pt t)))
       \<and> gst (nd2 (node_index ext pt t)) =
           (if lid (nd2 (node_index ext pt t)) \<noteq> 0 then gst_spec ext pt nd t else 0)"
  using IIN_visit_D [OF assms(1)] assms(2) by (auto simp: classified_node_def split: if_splits)

lemma IIN_visit_fid:
  assumes "IIN_visit ext pt model t nd = Some nd2" "gid (nd (node_index ext pt t)) = 0"
  shows "fid (nd2 (node_index ext pt t)) = NONE ext"
  using IIN_visit_D [OF assms(1)] assms(2)
  by (auto simp: classified_node_def newly_joined_def)

subsection \<open>The reset phase\<close>

lemma Init_node_clear: "unowned_clear (Init_node g v)"
  by (simp add: Init_node_def unowned_clear_def)

lemma Init_node_gid: "gid (Init_node g v) = 0 \<or> (0 < gid v \<and> gid (Init_node g v) = gid v)"
  by (simp add: Init_node_def)

lemma Init_node_fid_U: "fid (Init_node g v) = fid v \<and> U (Init_node g v) = U v"
  by (simp add: Init_node_def)

lemma Init_phase_post:
  assumes "\<And>v. A v \<Longrightarrow> B (Init_node g v)" "\<And>v. A v \<Longrightarrow> A (Init_node g v)"
    "\<And>v. B v \<Longrightarrow> B (Init_node g v)"
    and "\<forall>t\<in>set ts. A (nd (node_index ext pt t))"
  shows "\<forall>t\<in>set ts. B (fold (Init_visit ext pt g) ts nd (node_index ext pt t))"
proof (rule fold_option_post [where f = "\<lambda>t s. Some (Init_visit ext pt g t s)" and A = A and B = B
      and ix = "node_index ext pt" and s = nd and ts = ts])
  show "fold_option (\<lambda>t s. Some (Init_visit ext pt g t s)) ts nd = Some (fold (Init_visit ext pt g) ts nd)"
    by (rule fold_option_Some)
qed (use assms in \<open>auto simp: Init_visit_def\<close>)

lemma Init_phase_other:
  assumes "a \<notin> node_index ext pt ` set ts"
  shows "fold (Init_visit ext pt g) ts nd a = nd a"
proof (rule fold_option_other [where f = "\<lambda>t s. Some (Init_visit ext pt g t s)"
      and ix = "node_index ext pt" and ts = ts])
  show "fold_option (\<lambda>t s. Some (Init_visit ext pt g t s)) ts nd = Some (fold (Init_visit ext pt g) ts nd)"
    by (rule fold_option_Some)
qed (use assms in \<open>auto simp: Init_visit_def\<close>)

lemma Init_phase_at:
  assumes "distinct (map (node_index ext pt) ts)" "t \<in> set ts"
  shows "fold (Init_visit ext pt g) ts nd (node_index ext pt t) = Init_node g (nd (node_index ext pt t))"
proof (rule fold_option_at [where f = "\<lambda>t s. Some (Init_visit ext pt g t s)"
      and ix = "node_index ext pt" and ts = ts and I = "\<lambda>_. True"
      and P = "\<lambda>t v v'. v' = Init_node g v"])
  show "fold_option (\<lambda>t s. Some (Init_visit ext pt g t s)) ts nd = Some (fold (Init_visit ext pt g) ts nd)"
    by (rule fold_option_Some)
qed (use assms in \<open>auto simp: Init_visit_def\<close>)

subsection \<open>The ownership phase\<close>

lemma IGN_visit_eq:
  "IGN_visit ext pt n ply t nd =
     nd(node_index ext pt t := IGN_node ext pt n ply t (nd (node_index ext pt t)))"
  by (auto simp: IGN_visit_def IGN_node_def inside_shape_def Let_def)

lemma IGN_node_owned: "gid v \<noteq> 0 \<Longrightarrow> IGN_node ext pt n ply t v = v"
  by (simp add: IGN_node_def)

lemma IGN_node_keeps:
  "lid (IGN_node ext pt n ply t v) = lid v \<and> gst (IGN_node ext pt n ply t v) = gst v
   \<and> U (IGN_node ext pt n ply t v) = U v"
  by (simp add: IGN_node_def)

lemma IGN_node_gid:
  "gid (IGN_node ext pt n ply t v) = gid v
   \<or> (gid v = 0 \<and> gid (IGN_node ext pt n ply t v) = int n + 1)"
  by (simp add: IGN_node_def)

lemma IGN_visit_pres:
  assumes "\<And>v. P v \<Longrightarrow> P (IGN_node ext pt n ply t v)" "P (nd a)"
  shows "P (IGN_visit ext pt n ply t nd a)"
  using assms by (cases "a = node_index ext pt t") (simp_all add: IGN_visit_eq)

lemma IGN_poly_pres:
  assumes "\<And>t v. P v \<Longrightarrow> P (IGN_node ext pt n (poly g n) t v)" "P (nd a)"
  shows "P (IGN_poly ext pt g n nd a)"
proof (cases "1 = poly_state (poly g n)")
  case True
  with assms(2) show ?thesis by (simp add: IGN_poly_def)
next
  case False
  have "P (fold (IGN_visit ext pt n (poly g n)) (search_box ext pt (poly g n)) nd a)"
    by (rule fold_inv [where P = "\<lambda>s. P (s a)"]) (auto intro: assms IGN_visit_pres)
  with False show ?thesis by (simp add: IGN_poly_def)
qed

lemma IGN_phase_pres:
  assumes "\<And>n t v. n \<in> set ns \<Longrightarrow> P v \<Longrightarrow> P (IGN_node ext pt n (poly g n) t v)" "P (nd a)"
  shows "P (fold (IGN_poly ext pt g) ns nd a)"
  using assms
proof (induction ns arbitrary: nd)
  case Nil
  then show ?case by simp
next
  case (Cons n ns)
  have "P (IGN_poly ext pt g n nd a)"
    by (rule IGN_poly_pres) (auto intro: Cons.prems)
  then show ?case
    using Cons.prems(1) by (simp add: Cons.IH)
qed

lemma IGN_node_clear: "unowned_clear v \<Longrightarrow> unowned_clear (IGN_node ext pt n ply t v)"
  by (simp add: IGN_node_def unowned_clear_def)

subsection \<open>Bounds on the interfacial and the ghost layer\<close>

lemma lid_spec_range:
  "lid_spec ext pt nd t g = 0 \<or> (1 \<le> lid_spec ext pt nd t g \<and> lid_spec ext pt nd t g \<le> part_gl pt)"
  unfolding lid_spec_def by (rule layer_value_range)

lemma gst_spec_range:
  "gst_spec ext pt nd t = 0 \<or> (1 \<le> gst_spec ext pt nd t \<and> gst_spec ext pt nd t \<le> part_gl pt)"
  unfolding gst_spec_def by (rule layer_value_range)

lemma lid_le_gst_spec:
  assumes "g \<noteq> 0" "gst_spec ext pt nd t \<noteq> 0"
  shows "lid_spec ext pt nd t g \<noteq> 0 \<and> lid_spec ext pt nd t g \<le> gst_spec ext pt nd t"
  using ghost_le_layer [of g pt ext nd t] assms by (simp add: lid_spec_def gst_spec_def)

lemma classified_node_layers:
  assumes "0 \<le> part_gl pt" "gid v \<noteq> 0"
  shows "layers_ok pt (classified_node ext pt nd t v)"
  using assms lid_spec_range [of ext pt nd t "gid v"] gst_spec_range [of ext pt nd t]
    lid_le_gst_spec [of "gid v" ext pt nd t]
  by (auto simp: classified_node_def layers_ok_def)

lemma IIN_visit_layers_at:
  assumes "IIN_visit ext pt model t nd = Some nd2" "0 \<le> part_gl pt"
    and "unowned_clear (nd (node_index ext pt t))"
  shows "layers_ok pt (nd2 (node_index ext pt t))"
proof -
  from IIN_visit_D [OF assms(1)] obtain v1 where
    v1: "nd2 = nd(node_index ext pt t := classified_node ext pt nd t v1)"
      "gid v1 = gid (nd (node_index ext pt t))" "lid v1 = lid (nd (node_index ext pt t))"
      "gst v1 = gst (nd (node_index ext pt t))"
    by blast
  show ?thesis
  proof (cases "gid v1 = 0")
    case True
    with v1 assms(2,3) show ?thesis
      by (simp add: classified_node_def layers_ok_def unowned_clear_def)
  next
    case False
    from classified_node_layers [OF assms(2) False] v1(1) show ?thesis by simp
  qed
qed

lemma IIN_visit_layers_pres:
  assumes "IIN_visit ext pt model t nd = Some nd2" "0 \<le> part_gl pt" "layers_ok pt (nd a)"
  shows "layers_ok pt (nd2 a)"
proof -
  from IIN_visit_D [OF assms(1)] obtain v1 where
    v1: "nd2 = nd(node_index ext pt t := classified_node ext pt nd t v1)"
      "gid v1 = gid (nd (node_index ext pt t))" "lid v1 = lid (nd (node_index ext pt t))"
      "gst v1 = gst (nd (node_index ext pt t))"
    by blast
  show ?thesis
  proof (cases "a = node_index ext pt t")
    case False
    with v1(1) assms(3) show ?thesis by simp
  next
    case True
    show ?thesis
    proof (cases "gid v1 = 0")
      case z: True
      with v1 assms(3) True show ?thesis
        by (simp add: classified_node_def layers_ok_def)
    next
      case False
      from classified_node_layers [OF assms(2) False] v1(1) True show ?thesis by simp
    qed
  qed
qed

lemma IIN_visit_clear_pres:
  assumes "IIN_visit ext pt model t nd = Some nd2" "unowned_clear (nd a)"
  shows "unowned_clear (nd2 a)"
  using IIN_visit_gid [OF assms(1), of a] IIN_visit_unowned [OF assms(1), of a] assms(2)
  by (auto simp: unowned_clear_def)

lemma ComputeGeometryDomain_D:
  assumes "ComputeGeometryDomain ext sp model = Some sp'"
  shows "part sp' = part sp \<and> geo sp' = geo sp
     \<and> fold_option (IIN_visit ext (part sp) model) (interior (part sp))
         (fold (IGN_poly ext (part sp) (geo sp)) [0..<totN (geo sp)]
            (fold (Init_visit ext (part sp) (geo sp)) (interior (part sp)) (node sp)))
       = Some (node sp')"
  using assms
  by (auto simp: ComputeGeometryDomain_def IdentifyInterfacialNode_def IdentifyGeometryNode_def
      InitializeGeometryDomain_def)

lemma layers_after_classification:
  assumes "ComputeGeometryDomain ext sp model = Some sp'" "0 \<le> part_gl (part sp)"
  shows "\<forall>t\<in>set (interior (part sp)). layers_ok (part sp) (node sp' (node_index ext (part sp) t))"
proof -
  let ?pt = "part sp" and ?g = "geo sp"
  let ?s1 = "fold (Init_visit ext ?pt ?g) (interior ?pt) (node sp)"
  let ?s2 = "fold (IGN_poly ext ?pt ?g) [0..<totN ?g] ?s1"
  from ComputeGeometryDomain_D [OF assms(1)]
  have f: "fold_option (IIN_visit ext ?pt model) (interior ?pt) ?s2 = Some (node sp')"
    by simp
  have c1: "\<forall>t\<in>set (interior ?pt). unowned_clear (?s1 (node_index ext ?pt t))"
    by (rule Init_phase_post [where A = "\<lambda>_. True"]) (auto intro: Init_node_clear)
  have c2: "\<forall>t\<in>set (interior ?pt). unowned_clear (?s2 (node_index ext ?pt t))"
  proof
    fix t assume "t \<in> set (interior ?pt)"
    with c1 have "unowned_clear (?s1 (node_index ext ?pt t))" by blast
    then show "unowned_clear (?s2 (node_index ext ?pt t))"
      by (rule IGN_phase_pres [where P = unowned_clear, rotated]) (rule IGN_node_clear)
  qed
  show ?thesis
  proof (rule fold_option_post [OF f, where A = unowned_clear])
    fix t s s1 a
    assume v: "IIN_visit ext ?pt model t s = Some s1"
    show "unowned_clear (s a) \<Longrightarrow> unowned_clear (s1 a)"
      by (rule IIN_visit_clear_pres [OF v])
    show "layers_ok ?pt (s a) \<Longrightarrow> layers_ok ?pt (s1 a)"
      by (rule IIN_visit_layers_pres [OF v assms(2)])
    show "unowned_clear (s (node_index ext ?pt t)) \<Longrightarrow> layers_ok ?pt (s1 (node_index ext ?pt t))"
      by (rule IIN_visit_layers_at [OF v assms(2)])
  next
    show "\<forall>t\<in>set (interior ?pt). unowned_clear (?s2 (node_index ext ?pt t))"
      by (rule c2)
  qed
qed

section \<open>Properties of the method of image\<close>

text \<open>
  Claim C1. For every image-point state \<open>UoI\<close> and boundary-point state \<open>UoO\<close>, the
  ghost state written by \<open>MethodOfImage\<close> into an array of \<open>DIMUo\<close> entries has, in
  each velocity component 1, 2, 3, the value \<open>2 * boundary - image\<close>, so that ghost
  plus image is twice the boundary value; pressure (entry 4) and temperature
  (entry 5) are the image-point values; the density entry is not written.
\<close>

theorem MethodOfImage_reflects:
  assumes "length UoG = DIMUo"
  shows "(\<forall>c \<in> {1, 2, 3}.
            MethodOfImage UoI UoO UoG ! c = 2 * UoO ! c - UoI ! c
          \<and> MethodOfImage UoI UoO UoG ! c + UoI ! c = 2 * UoO ! c)
       \<and> MethodOfImage UoI UoO UoG ! 4 = UoI ! 4
       \<and> MethodOfImage UoI UoO UoG ! 5 = UoI ! 5
       \<and> MethodOfImage UoI UoO UoG ! 0 = UoG ! 0
       \<and> length (MethodOfImage UoI UoO UoG) = DIMUo"
  using assms by (simp add: MethodOfImage_def DIMUo_def)

theorem MethodOfImage_reflects_witness:
  "length [1, 0, 0, 0, 0, 0 :: real] = DIMUo
   \<and> MethodOfImage [1, 3, -1, 0, 101325, 300] [1, 0, 2, 5, 90000, 350] [1, 0, 0, 0, 0, 0]
       = [1, -3, 5, 10, 101325, 300]"
proof -
  have len: "length [1, 0, 0, 0, 0, 0 :: real] = DIMUo"
    by (simp add: DIMUo_def)
  from MethodOfImage_reflects [OF len, of "[1, 3, -1, 0, 101325, 300]" "[1, 0, 2, 5, 90000, 350]"]
  show ?thesis
    by (simp add: MethodOfImage_def DIMUo_def)
qed

lemma ex_interior: "interior ex_part = [(0, 0, 2), (0, 0, 3), (0, 0, 4), (0, 0, 5), (0, 0, 6)]"
  by (simp add: interior_def box_nodes_def ex_part_def upto.simps)

lemma ex_index: "node_index ex_ext ex_part (k, j, i) = (k + j) * 9 + i"
  by (simp add: node_index_def ex_ext_def ex_part_def)

lemma ex_box: "search_box ex_ext ex_part (ex_sphere st) = [(0, 0, 5), (0, 0, 6)]"
  by (simp add: search_box_def box_nodes_def ex_part_def ex_ext_def ex_sphere_def upto.simps)

lemma IIN_phase_pure:
  assumes "\<forall>a. gid (s a) = gid (nd a)"
    and "\<forall>t\<in>set ts. \<not> newly_joined ext (s (node_index ext pt t))"
  shows "fold_option (IIN_visit ext pt model) ts s = Some (fold (classify_step ext pt nd) ts s)"
  using assms
proof (induction ts arbitrary: s)
  case Nil
  then show ?case by simp
next
  case (Cons t ts)
  let ?s1 = "classify_step ext pt nd t s"
  have v: "IIN_visit ext pt model t s = Some ?s1"
    using Cons.prems classified_node_cong [OF Cons.prems(1), of ext pt t]
    by (simp add: IIN_visit_not_newly classify_step_def)
  have g: "\<forall>a. gid (?s1 a) = gid (nd a)"
    using Cons.prems(1) by (simp add: classified_node_def classify_step_def)
  have n: "\<forall>t\<in>set ts. \<not> newly_joined ext (?s1 (node_index ext pt t))"
    using Cons.prems(2) by (auto simp: classified_node_def newly_joined_def classify_step_def)
  from Cons.IH [OF g n] v show ?case by simp
qed

lemma fold_fixed:
  "\<forall>t\<in>set ts. f t s = s \<Longrightarrow> fold f ts s = s"
  by (induction ts) simp_all

lemma ex_space_sel:
  "part (ex_space st nd) = ex_part" "geo (ex_space st nd) = ex_geo st" "node (ex_space st nd) = nd"
  by (simp_all add: ex_space_def)

lemma ex_Init_node: "2 \<le> a \<Longrightarrow> a \<le> 6 \<Longrightarrow> Init_node (ex_geo 1) (ex_node a) = ex_node a"
  by (simp add: Init_node_def ex_node_def ex_cell_def ex_geo_def ex_sphere_def)

lemma ex_Init_visit:
  "t \<in> set (interior ex_part) \<Longrightarrow> Init_visit ex_ext ex_part (ex_geo 1) t ex_node = ex_node"
  by (auto simp: ex_interior ex_index Init_visit_def ex_Init_node)

lemma ex_Init: "InitializeGeometryDomain ex_ext (ex_space 1 ex_node) = ex_space 1 ex_node"
proof -
  have "fold (Init_visit ex_ext ex_part (ex_geo 1)) (interior ex_part) ex_node = ex_node"
    by (rule fold_fixed) (simp add: ex_Init_visit)
  then show ?thesis
    by (simp add: InitializeGeometryDomain_def ex_space_def)
qed

lemma IGN_stationary:
  assumes "\<forall>n<totN (geo sp). poly_state (poly (geo sp) n) = 1"
  shows "IdentifyGeometryNode ext sp = sp"
proof -
  have "fold (IGN_poly ext (part sp) (geo sp)) ns nd = nd" if "\<forall>n\<in>set ns. n < totN (geo sp)" for ns nd
    using that assms by (induction ns arbitrary: nd) (simp_all add: IGN_poly_def)
  then have "fold (IGN_poly ext (part sp) (geo sp)) [0..<totN (geo sp)] (node sp) = node sp"
    by simp
  then show ?thesis by (simp add: IdentifyGeometryNode_def)
qed

lemma ex_IGN: "IdentifyGeometryNode ext (ex_space 1 nd) = ex_space 1 nd"
  by (rule IGN_stationary) (simp add: ex_space_sel ex_geo_def ex_sphere_def)

lemma ex_not_newly: "\<not> newly_joined ex_ext (ex_node a)"
  by (simp add: newly_joined_def ex_node_def ex_cell_def ex_ext_def)

lemma ex_returns:
  "ComputeGeometryDomain ex_ext (ex_space 1 ex_node) ex_model
     = Some ((ex_space 1 ex_node)\<lparr>node := fold (classify_step ex_ext ex_part ex_node) (interior ex_part) ex_node\<rparr>)"
proof -
  have "fold_option (IIN_visit ex_ext ex_part ex_model) (interior ex_part) ex_node
      = Some (fold (classify_step ex_ext ex_part ex_node) (interior ex_part) ex_node)"
    by (rule IIN_phase_pure) (simp_all add: ex_not_newly)
  then show ?thesis
    by (simp add: ComputeGeometryDomain_def ex_Init ex_IGN IdentifyInterfacialNode_def ex_space_sel)
qed

lemma ex_upt4: "[0..<4] = [0, 1, 2, 3]"
  by code_simp

lemma ex_layer_of: "map (layer_of ex_part) [0, 1, 2, 3] = [Some 1, Some 1, Some 2, Some 2]"
  by (simp add: layer_of_def ex_part_def upto.simps)

lemma ex_path_index:
  "map (path_index ex_ext ex_part (path ex_part) 0 0 i) [0, 1, 2, 3] = [i + 1, i - 1, i + 2, i - 2]"
  by (simp add: path_index_def ex_ext_def ex_part_def)

lemma ex_gids: "map (\<lambda>a. gid (ex_node a)) [0, 1, 2, 3, 4, 5, 6, 7, 8] = [- 1, - 1, 0, 0, 0, 1, 1, - 1, - 1]"
  by (simp add: ex_node_def ex_cell_def)

lemma ex_first_neighbour:
  "first_neighbour ex_ext ex_part nd (0, 0, i) P =
     find (\<lambda>n. gid (nd (path_index ex_ext ex_part (path ex_part) 0 0 i n)) \<noteq> - 1
              \<and> P (gid (nd (path_index ex_ext ex_part (path ex_part) 0 0 i n)))) [0, 1, 2, 3]"
proof -
  have "nat (pathSep ex_part 0) = 4" by (simp add: ex_part_def)
  moreover have "NONE ex_ext = - 1" by (simp add: ex_ext_def)
  ultimately show ?thesis
    by (simp add: first_neighbour_def ex_upt4 eq_commute)
qed

lemma ex_lid_gst:
  "lid_spec ex_ext ex_part ex_node (0, 0, 5) 1 = 1"
  "gst_spec ex_ext ex_part ex_node (0, 0, 5) = 1"
  "lid_spec ex_ext ex_part ex_node (0, 0, 6) 1 = 2"
  "gst_spec ex_ext ex_part ex_node (0, 0, 6) = 2"
  using ex_layer_of ex_gids
  by (simp_all add: lid_spec_def gst_spec_def layer_value_def ex_first_neighbour
      ex_path_index [simplified])

lemma classify_fold_other:
  assumes "a \<notin> node_index ext pt ` set ts"
  shows "fold (classify_step ext pt nd) ts s a = s a"
proof (rule fold_option_other [where f = "\<lambda>t s. Some (classify_step ext pt nd t s)"
      and ix = "node_index ext pt" and ts = ts])
  show "fold_option (\<lambda>t s. Some (classify_step ext pt nd t s)) ts s = Some (fold (classify_step ext pt nd) ts s)"
    by (rule fold_option_Some)
qed (use assms in \<open>auto simp: classify_step_def\<close>)

lemma classify_fold_at:
  assumes "distinct (map (node_index ext pt) ts)" "t \<in> set ts"
  shows "fold (classify_step ext pt nd) ts s (node_index ext pt t)
       = classified_node ext pt nd t (s (node_index ext pt t))"
proof (rule fold_option_at [where f = "\<lambda>t s. Some (classify_step ext pt nd t s)"
      and ix = "node_index ext pt" and ts = ts and I = "\<lambda>_. True"
      and P = "\<lambda>t v v'. v' = classified_node ext pt nd t v"])
  show "fold_option (\<lambda>t s. Some (classify_step ext pt nd t s)) ts s = Some (fold (classify_step ext pt nd) ts s)"
    by (rule fold_option_Some)
qed (use assms in \<open>auto simp: classify_step_def\<close>)

lemma ex_distinct: "distinct (map (node_index ex_ext ex_part) (interior ex_part))"
  by (simp add: ex_interior ex_index)

lemma ex_classified:
  "lid (fold (classify_step ex_ext ex_part ex_node) (interior ex_part) ex_node 5) = 1"
  "gst (fold (classify_step ex_ext ex_part ex_node) (interior ex_part) ex_node 5) = 1"
  "lid (fold (classify_step ex_ext ex_part ex_node) (interior ex_part) ex_node 6) = 2"
  "gst (fold (classify_step ex_ext ex_part ex_node) (interior ex_part) ex_node 6) = 2"
proof -
  have 5: "(0, 0, 5) \<in> set (interior ex_part)" and 6: "(0, 0, 6) \<in> set (interior ex_part)"
    by (simp_all add: ex_interior)
  have g: "gid (ex_node 5) = 1" "gid (ex_node 6) = 1"
    by (simp_all add: ex_node_def ex_cell_def)
  show "lid (fold (classify_step ex_ext ex_part ex_node) (interior ex_part) ex_node 5) = 1"
    "gst (fold (classify_step ex_ext ex_part ex_node) (interior ex_part) ex_node 5) = 1"
    using classify_fold_at [OF ex_distinct 5, of ex_node ex_node] g
    by (simp_all add: ex_index classified_node_def ex_lid_gst)
  show "lid (fold (classify_step ex_ext ex_part ex_node) (interior ex_part) ex_node 6) = 2"
    "gst (fold (classify_step ex_ext ex_part ex_node) (interior ex_part) ex_node 6) = 2"
    using classify_fold_at [OF ex_distinct 6, of ex_node ex_node] g
    by (simp_all add: ex_index classified_node_def ex_lid_gst)
qed

text \<open>
  Claim C10. When \<open>ComputeGeometryDomain\<close> returns, every interior node has its
  interfacial layer \<open>lid\<close> and its ghost layer \<open>gst\<close> in the range from 0 to the number of
  ghost layers \<open>gl\<close>; a node with a ghost layer has an interfacial layer, and the
  interfacial layer is not larger than the ghost layer. The last part holds for every
  table of layer separators, nondecreasing or not.
\<close>

theorem classification_layers_in_range:
  assumes "ComputeGeometryDomain ext sp model = Some sp'" and "0 \<le> part_gl (part sp)"
  shows "\<forall>t\<in>set (interior (part sp)).
           0 \<le> lid (node sp' (node_index ext (part sp) t))
         \<and> lid (node sp' (node_index ext (part sp) t)) \<le> part_gl (part sp)
         \<and> 0 \<le> gst (node sp' (node_index ext (part sp) t))
         \<and> gst (node sp' (node_index ext (part sp) t)) \<le> part_gl (part sp)
         \<and> (gst (node sp' (node_index ext (part sp) t)) \<noteq> 0
              \<longrightarrow> lid (node sp' (node_index ext (part sp) t)) \<noteq> 0)
         \<and> (gst (node sp' (node_index ext (part sp) t)) \<noteq> 0
              \<longrightarrow> lid (node sp' (node_index ext (part sp) t))
                    \<le> gst (node sp' (node_index ext (part sp) t)))"
  using layers_after_classification [OF assms] by (simp add: layers_ok_def)

theorem classification_layers_in_range_witness:
  "ComputeGeometryDomain ex_ext (ex_space 1 ex_node) ex_model
     = Some ((ex_space 1 ex_node)
         \<lparr>node := fold (classify_step ex_ext ex_part ex_node) (interior ex_part) ex_node\<rparr>)
   \<and> 0 \<le> part_gl (part (ex_space 1 ex_node))
   \<and> lid (fold (classify_step ex_ext ex_part ex_node) (interior ex_part) ex_node 5) = 1
   \<and> gst (fold (classify_step ex_ext ex_part ex_node) (interior ex_part) ex_node 5) = 1
   \<and> lid (fold (classify_step ex_ext ex_part ex_node) (interior ex_part) ex_node 6) = 2
   \<and> gst (fold (classify_step ex_ext ex_part ex_node) (interior ex_part) ex_node 6) = 2
   \<and> list_all (\<lambda>a.
         0 \<le> lid (fold (classify_step ex_ext ex_part ex_node) (interior ex_part) ex_node a)
       \<and> lid (fold (classify_step ex_ext ex_part ex_node) (interior ex_part) ex_node a) \<le> 2
       \<and> 0 \<le> gst (fold (classify_step ex_ext ex_part ex_node) (interior ex_part) ex_node a)
       \<and> gst (fold (classify_step ex_ext ex_part ex_node) (interior ex_part) ex_node a) \<le> 2)
       [2, 3, 4, 5, 6]"
proof -
  have g2: "part_gl ex_part = 2"
    by (simp add: ex_part_def)
  have gl: "0 \<le> part_gl (part (ex_space 1 ex_node))"
    by (simp add: ex_space_sel g2)
  have "list_all (\<lambda>a.
         0 \<le> lid (fold (classify_step ex_ext ex_part ex_node) (interior ex_part) ex_node a)
       \<and> lid (fold (classify_step ex_ext ex_part ex_node) (interior ex_part) ex_node a) \<le> 2
       \<and> 0 \<le> gst (fold (classify_step ex_ext ex_part ex_node) (interior ex_part) ex_node a)
       \<and> gst (fold (classify_step ex_ext ex_part ex_node) (interior ex_part) ex_node a) \<le> 2)
       [2, 3, 4, 5, 6]"
    using classification_layers_in_range [OF ex_returns gl]
    by (simp add: ex_space_sel g2 ex_index ex_interior [THEN arg_cong [where f = set]])
  then show ?thesis
    using ex_returns gl ex_classified by blast
qed

lemma set_cube:
  "(kh, jh, ih) \<in> set (cube r) \<longleftrightarrow>
     - r \<le> kh \<and> kh \<le> r \<and> - r \<le> jh \<and> jh \<le> r \<and> - r \<le> ih \<and> ih \<le> r"
  by (auto simp: cube_def image_iff)

lemma ex_donor: "IDW_donors ex_ext (4, 0, 0) (- 1) 0 ex_part ex_node 2 \<noteq> []"
proof -
  have "(0, 0, 0) \<in> set (cube 2)"
    by (simp add: set_cube)
  moreover have "IDW_donor ex_ext (4, 0, 0) (- 1) 0 ex_part ex_node (0, 0, 0)"
    by (simp add: IDW_donor_def IDW_index_def ex_ext_def ex_part_def ex_node_def ex_cell_def)
  ultimately show ?thesis
    by (auto simp: IDW_donors_def filter_empty_conv)
qed

lemma ex_IDW:
  "\<exists>weightSum Uo. InverseDistanceWeighting ex_ext 0 (4, 0, 0) (2, 0, 0) 2 (- 1) 0 ex_part ex_node ex_model
     = Some (weightSum, Uo)"
proof -
  have v: "\<forall>r'. (2 :: int) \<le> r' \<and> r' < 2 \<longrightarrow> IDW_donors ex_ext (4, 0, 0) (- 1) 0 ex_part ex_node r' = []"
    by auto
  have "(2 :: int) \<le> 2" by simp
  from IDW_returns [OF this ex_donor v, of 0 "(2, 0, 0)" ex_model] show ?thesis
    by blast
qed

lemma cx_no_donor: "IDW_donors ex_ext n (- 1) 0 ex_part cx_node r = []"
  by (simp add: IDW_donors_def IDW_donor_def cx_node_def ex_cell_def split_beta)

text \<open>
  Claim C7. For every call of \<open>InverseDistanceWeighting\<close> that returns, with a positive
  \<open>tinyL\<close>: the donors are the candidates of one cube of half-width \<open>r\<close>; every donor
  has the weight \<open>1 / max dist2 tinyL\<close>, whose divisor is positive, which is positive and
  equal to \<open>1 / tinyL\<close> when \<open>dist2 < tinyL\<close>; the returned weight sum is the sum of these
  weights; the normalized weights are positive and sum to 1; and every entry of the
  accumulated state divided by the weight sum is the combination of the donors'
  primitive states with the normalized weights.
\<close>

theorem IDW_convex_combination:
  assumes "InverseDistanceWeighting ext tn n p h type gidq pt nd model = Some (weightSum, Uo)"
    and "0 < tinyL pt"
  shows "\<exists>r\<ge>h.
       IDW_donors ext n type gidq pt nd r \<noteq> []
     \<and> (\<forall>d\<in>set (IDW_donors ext n type gidq pt nd r).
           0 < max (IDW_dist2 ext n p pt d) (tinyL pt)
         \<and> 0 < 1 / max (IDW_dist2 ext n p pt d) (tinyL pt)
         \<and> (IDW_dist2 ext n p pt d < tinyL pt \<longrightarrow>
              1 / max (IDW_dist2 ext n p pt d) (tinyL pt) = 1 / tinyL pt)
         \<and> 0 < 1 / max (IDW_dist2 ext n p pt d) (tinyL pt) / weightSum)
     \<and> weightSum = (\<Sum>d\<leftarrow>IDW_donors ext n type gidq pt nd r.
                      1 / max (IDW_dist2 ext n p pt d) (tinyL pt))
     \<and> 0 < weightSum
     \<and> (\<Sum>d\<leftarrow>IDW_donors ext n type gidq pt nd r.
           1 / max (IDW_dist2 ext n p pt d) (tinyL pt) / weightSum) = 1
     \<and> length Uo = DIMUo
     \<and> (\<forall>c<DIMUo. Normalize DIMUo weightSum Uo ! c =
          (\<Sum>d\<leftarrow>IDW_donors ext n type gidq pt nd r.
             1 / max (IDW_dist2 ext n p pt d) (tinyL pt) / weightSum
             * IDW_Uoh ext tn n pt nd model d ! c))"
proof -
  from IDW_Some_D [OF assms(1)] obtain r where r: "h \<le> r"
    and ne: "IDW_donors ext n type gidq pt nd r \<noteq> []"
    and ws: "weightSum = (\<Sum>d\<leftarrow>IDW_donors ext n type gidq pt nd r.
                 1 / max (IDW_dist2 ext n p pt d) (tinyL pt))"
    and l: "length Uo = DIMUo"
    and v: "\<forall>c<DIMUo. Uo ! c =
          (\<Sum>d\<leftarrow>IDW_donors ext n type gidq pt nd r.
             1 / max (IDW_dist2 ext n p pt d) (tinyL pt) * IDW_Uoh ext tn n pt nd model d ! c)"
    by blast
  let ?ds = "IDW_donors ext n type gidq pt nd r"
  let ?w = "\<lambda>d. 1 / max (IDW_dist2 ext n p pt d) (tinyL pt)"
  have mpos: "0 < max (IDW_dist2 ext n p pt d) (tinyL pt)" for d
    using assms(2) by (simp add: less_max_iff_disj)
  then have wpos: "0 < ?w d" for d
    by simp
  have wspos: "0 < weightSum"
    unfolding ws using ne wpos by (intro sum_list_pos_real) auto
  have "(\<Sum>d\<leftarrow>?ds. ?w d / weightSum) = (\<Sum>d\<leftarrow>?ds. ?w d) / weightSum"
    by (rule sum_list_divide_real)
  also have "(\<Sum>d\<leftarrow>?ds. ?w d) = weightSum"
    by (rule ws [symmetric])
  also have "weightSum / weightSum = 1"
    using wspos by simp
  finally have one: "(\<Sum>d\<leftarrow>?ds. ?w d / weightSum) = 1" .
  have nrm: "Normalize DIMUo weightSum Uo ! c = (\<Sum>d\<leftarrow>?ds. ?w d / weightSum * IDW_Uoh ext tn n pt nd model d ! c)"
    if "c < DIMUo" for c
  proof -
    have "Normalize DIMUo weightSum Uo ! c = Uo ! c / weightSum"
      using that l by (simp add: Normalize_def)
    also have "\<dots> = (\<Sum>d\<leftarrow>?ds. ?w d * IDW_Uoh ext tn n pt nd model d ! c) / weightSum"
      using v that by simp
    finally show ?thesis
      by (simp only: sum_list_divide_times_real)
  qed
  have each: "\<forall>d\<in>set ?ds. 0 < max (IDW_dist2 ext n p pt d) (tinyL pt) \<and> 0 < ?w d
         \<and> (IDW_dist2 ext n p pt d < tinyL pt \<longrightarrow> ?w d = 1 / tinyL pt)
         \<and> 0 < ?w d / weightSum"
    using mpos wpos wspos by (auto simp: max_def)
  show ?thesis
    using r ne each ws wspos one l nrm by (intro exI [of _ r]) blast
qed

theorem IDW_convex_combination_witness:
  "\<exists>weightSum Uo.
     InverseDistanceWeighting ex_ext 0 (4, 0, 0) (2, 0, 0) 2 (- 1) 0 ex_part ex_node ex_model
       = Some (weightSum, Uo)
   \<and> 0 < tinyL ex_part
   \<and> 0 < weightSum
   \<and> (\<exists>r\<ge>2.
         IDW_donors ex_ext (4, 0, 0) (- 1) 0 ex_part ex_node r \<noteq> []
       \<and> weightSum = (\<Sum>d\<leftarrow>IDW_donors ex_ext (4, 0, 0) (- 1) 0 ex_part ex_node r.
                        1 / max (IDW_dist2 ex_ext (4, 0, 0) (2, 0, 0) ex_part d) (tinyL ex_part))
       \<and> (\<Sum>d\<leftarrow>IDW_donors ex_ext (4, 0, 0) (- 1) 0 ex_part ex_node r.
             1 / max (IDW_dist2 ex_ext (4, 0, 0) (2, 0, 0) ex_part d) (tinyL ex_part) / weightSum) = 1)"
proof -
  from ex_IDW obtain weightSum Uo where
    r: "InverseDistanceWeighting ex_ext 0 (4, 0, 0) (2, 0, 0) 2 (- 1) 0 ex_part ex_node ex_model
          = Some (weightSum, Uo)"
    by blast
  have t: "0 < tinyL ex_part"
    by (simp add: ex_part_def)
  from IDW_convex_combination [OF r t] r t show ?thesis
    by blast
qed

text \<open>
  Claim C5, as amended. \<open>InverseDistanceWeighting\<close> returns when some cube of half-width
  \<open>r \<ge> h\<close> holds a donor. When no cube does, the search loop runs forever: the call does
  not return, and no error is reported.
\<close>

theorem IDW_returns_iff_donor:
  "((\<exists>r\<ge>h. IDW_donors ext n type gidq pt nd r \<noteq> []) \<longrightarrow>
      (\<exists>weightSum Uo. InverseDistanceWeighting ext tn n p h type gidq pt nd model
                        = Some (weightSum, Uo)))
   \<and> ((\<forall>r\<ge>h. IDW_donors ext n type gidq pt nd r = []) \<longrightarrow>
        InverseDistanceWeighting ext tn n p h type gidq pt nd model = None)"
proof (intro conjI impI)
  assume "\<exists>r\<ge>h. IDW_donors ext n type gidq pt nd r \<noteq> []"
  from first_radius [of h "\<lambda>r. IDW_donors ext n type gidq pt nd r \<noteq> []", OF this]
  obtain r where r: "h \<le> r" "IDW_donors ext n type gidq pt nd r \<noteq> []"
    "\<forall>r'. h \<le> r' \<and> r' < r \<longrightarrow> IDW_donors ext n type gidq pt nd r' = []"
    by auto
  from IDW_returns [OF r, of tn p model]
  show "\<exists>weightSum Uo. InverseDistanceWeighting ext tn n p h type gidq pt nd model
                        = Some (weightSum, Uo)"
    by blast
next
  assume "\<forall>r\<ge>h. IDW_donors ext n type gidq pt nd r = []"
  then show "InverseDistanceWeighting ext tn n p h type gidq pt nd model = None"
    by (rule IDW_diverges)
qed

theorem IDW_returns_iff_donor_witness:
  "(\<exists>r\<ge>2. IDW_donors ex_ext (4, 0, 0) (- 1) 0 ex_part ex_node r \<noteq> [])
   \<and> (\<exists>weightSum Uo. InverseDistanceWeighting ex_ext 0 (4, 0, 0) (2, 0, 0) 2 (- 1) 0
                        ex_part ex_node ex_model = Some (weightSum, Uo))
   \<and> (\<forall>r. IDW_donors ex_ext (4, 0, 0) (- 1) 0 ex_part cx_node r = [])
   \<and> InverseDistanceWeighting ex_ext 0 (4, 0, 0) (2, 0, 0) 2 (- 1) 0 ex_part cx_node ex_model = None"
proof -
  have d: "\<exists>r\<ge>2. IDW_donors ex_ext (4, 0, 0) (- 1) 0 ex_part ex_node r \<noteq> []"
    using ex_donor by (intro exI [of _ 2]) simp
  have e: "\<forall>r\<ge>2. IDW_donors ex_ext (4, 0, 0) (- 1) 0 ex_part cx_node r = []"
    by (simp add: cx_no_donor)
  from IDW_returns_iff_donor [of 2 ex_ext "(4, 0, 0)" "- 1" 0 ex_part ex_node 0 "(2, 0, 0)" ex_model]
    IDW_returns_iff_donor [of 2 ex_ext "(4, 0, 0)" "- 1" 0 ex_part cx_node 0 "(2, 0, 0)" ex_model]
    d e
  show ?thesis by (simp add: cx_no_donor)
qed

text \<open>
  The claim as the spec states it (the call returns and reports an error when no
  candidate is a donor at any radius) fails on a grid whose nodes are all unowned and
  carry an old face identifier: the call does not return.
\<close>

theorem IDW_no_donor_counterexample:
  "InverseDistanceWeighting ex_ext 0 (4, 0, 0) (2, 0, 0) 2 (- 1) 0 ex_part cx_node ex_model = None"
  by (rule IDW_diverges) (simp add: cx_no_donor)

text \<open>
  Claim C6. When the search of \<open>FlowReconstruction\<close> returns the weight sum and the
  accumulated image state, \<open>FlowReconstruction\<close> returns, and the temperature (entry 5)
  of the boundary-point state is the wall temperature \<open>poly_T\<close> of the shape when that
  is not negative, whatever the image state is, and the normalized image temperature
  when it is negative.
\<close>

theorem FlowReconstruction_wall_temperature:
  assumes "InverseDistanceWeighting ext tn n p h type gidq pt nd model = Some (weightSum, UoI)"
    and "length UoO = DIMUo"
  shows "\<exists>UoO' UoI'.
       FlowReconstruction ext tn n p h type gidq ply pt nd model pO N UoO = Some (UoO', UoI')
     \<and> UoO' ! 5 = (if 0 \<le> poly_T ply then poly_T ply else Normalize DIMUo weightSum UoI ! 5)"
proof -
  have "length UoI = DIMUo"
    using IDW_Some_D [OF assms(1)] by blast
  then have "Normalize DIMUo weightSum UoI ! 5 = UoI ! 5 * (1 / weightSum)"
    by (simp add: Normalize_def DIMUo_def)
  then show ?thesis
    using assms by (simp add: FlowReconstruction_def Let_def split_beta DIMUo_def)
qed

theorem FlowReconstruction_wall_temperature_witness:
  "\<exists>weightSum UoI UoO' UoI' UoO'' UoI''.
     InverseDistanceWeighting ex_ext 0 (4, 0, 0) (2, 0, 0) 2 (- 1) 0 ex_part ex_node ex_model
       = Some (weightSum, UoI)
   \<and> length [0, 0, 0, 0, 0, 0 :: real] = DIMUo
   \<and> FlowReconstruction ex_ext 0 (4, 0, 0) (2, 0, 0) 2 (- 1) 0 (ex_sphere 0) ex_part ex_node
         ex_model (3, 0, 0) (- 1, 0, 0) [0, 0, 0, 0, 0, 0] = Some (UoO', UoI')
   \<and> UoO' ! 5 = 350
   \<and> FlowReconstruction ex_ext 0 (4, 0, 0) (2, 0, 0) 2 (- 1) 0 ((ex_sphere 0)\<lparr>poly_T := - 1\<rparr>)
         ex_part ex_node ex_model (3, 0, 0) (- 1, 0, 0) [0, 0, 0, 0, 0, 0] = Some (UoO'', UoI'')
   \<and> UoO'' ! 5 = Normalize DIMUo weightSum UoI ! 5"
proof -
  from ex_IDW obtain weightSum UoI where
    r: "InverseDistanceWeighting ex_ext 0 (4, 0, 0) (2, 0, 0) 2 (- 1) 0 ex_part ex_node ex_model
          = Some (weightSum, UoI)"
    by blast
  have l: "length [0, 0, 0, 0, 0, 0 :: real] = DIMUo"
    by (simp add: DIMUo_def)
  have T: "poly_T (ex_sphere 0) = 350" "poly_T ((ex_sphere 0)\<lparr>poly_T := - 1\<rparr>) = - 1"
    by (simp_all add: ex_sphere_def)
  from FlowReconstruction_wall_temperature [OF r l, of "ex_sphere 0" "(3, 0, 0)" "(- 1, 0, 0)"]
  obtain UoO' UoI' where
    a: "FlowReconstruction ex_ext 0 (4, 0, 0) (2, 0, 0) 2 (- 1) 0 (ex_sphere 0) ex_part ex_node
         ex_model (3, 0, 0) (- 1, 0, 0) [0, 0, 0, 0, 0, 0] = Some (UoO', UoI')"
      "UoO' ! 5 = 350"
    unfolding T by auto
  from FlowReconstruction_wall_temperature [OF r l, of "(ex_sphere 0)\<lparr>poly_T := - 1\<rparr>" "(3, 0, 0)" "(- 1, 0, 0)"]
  obtain UoO'' UoI'' where
    b: "FlowReconstruction ex_ext 0 (4, 0, 0) (2, 0, 0) 2 (- 1) 0 ((ex_sphere 0)\<lparr>poly_T := - 1\<rparr>)
         ex_part ex_node ex_model (3, 0, 0) (- 1, 0, 0) [0, 0, 0, 0, 0, 0] = Some (UoO'', UoI'')"
      "UoO'' ! 5 = Normalize DIMUo weightSum UoI ! 5"
    unfolding T by auto
  from r l a b show ?thesis
    by blast
qed

lemma IIN_phase_gid:
  assumes "fold_option (IIN_visit ext pt model) ts s = Some s'"
  shows "\<forall>a. gid (s' a) = gid (s a)"
  by (rule fold_option_inv [OF assms, where P = "\<lambda>x. \<forall>a. gid (x a) = gid (s a)"])
    (auto simp: IIN_visit_gid)

lemma IdentifyInterfacialNode_D:
  assumes "IdentifyInterfacialNode ext sp model = Some sp'"
  shows "part sp' = part sp \<and> geo sp' = geo sp
       \<and> fold_option (IIN_visit ext (part sp) model) (interior (part sp)) (node sp) = Some (node sp')"
  using assms by (auto simp: IdentifyInterfacialNode_def)

lemma IIN_phase_owned:
  assumes f: "fold_option (IIN_visit ext pt model) ts s = Some s'"
    and d: "distinct (map (node_index ext pt) ts)"
    and t: "t \<in> set ts"
    and g: "gid (s (node_index ext pt t)) \<noteq> 0"
  shows "lid (s' (node_index ext pt t)) = lid_spec ext pt s t (gid (s (node_index ext pt t)))
       \<and> gst (s' (node_index ext pt t))
           = (if lid (s' (node_index ext pt t)) \<noteq> 0 then gst_spec ext pt s t else 0)
       \<and> fid (s' (node_index ext pt t)) = fid (s (node_index ext pt t))
       \<and> U (s' (node_index ext pt t)) = U (s (node_index ext pt t))"
proof -
  let ?P = "\<lambda>t v v'. gid v \<noteq> 0 \<longrightarrow>
              lid v' = lid_spec ext pt s t (gid v)
            \<and> gst v' = (if lid v' \<noteq> 0 then gst_spec ext pt s t else 0)
            \<and> fid v' = fid v \<and> U v' = U v"
  have "?P t (s (node_index ext pt t)) (s' (node_index ext pt t))"
  proof (rule fold_option_at [OF f d, where I = "\<lambda>x. \<forall>a. gid (x a) = gid (s a)" and P = ?P])
    fix t x x1 a
    assume v: "IIN_visit ext pt model t x = Some x1"
    show "a \<noteq> node_index ext pt t \<Longrightarrow> x1 a = x a"
      by (rule IIN_visit_other [OF v])
    show "\<forall>a. gid (x a) = gid (s a) \<Longrightarrow> \<forall>a. gid (x1 a) = gid (s a)"
      by (simp add: IIN_visit_gid [OF v])
    show "\<forall>a. gid (x a) = gid (s a) \<Longrightarrow> ?P t (x (node_index ext pt t)) (x1 (node_index ext pt t))"
    proof (intro impI)
      assume e: "\<forall>a. gid (x a) = gid (s a)" and o: "gid (x (node_index ext pt t)) \<noteq> 0"
      have "\<not> newly_joined ext (x (node_index ext pt t))"
        using o by (simp add: newly_joined_def)
      from IIN_visit_owned [OF v o] IIN_visit_old [OF v this]
      show "lid (x1 (node_index ext pt t)) = lid_spec ext pt s t (gid (x (node_index ext pt t)))
            \<and> gst (x1 (node_index ext pt t))
                = (if lid (x1 (node_index ext pt t)) \<noteq> 0 then gst_spec ext pt s t else 0)
            \<and> fid (x1 (node_index ext pt t)) = fid (x (node_index ext pt t))
            \<and> U (x1 (node_index ext pt t)) = U (x (node_index ext pt t))"
        by (simp add: lid_spec_cong [OF e] gst_spec_cong [OF e])
    qed
  qed (simp_all add: t)
  with g show ?thesis by simp
qed

lemma ex_inj: "inj_on (node_index ex_ext ex_part) (set (interior ex_part))"
  using ex_distinct by (simp add: distinct_map)

lemma ex_IIN:
  "IdentifyInterfacialNode ex_ext (ex_space 1 ex_node) ex_model
     = Some ((ex_space 1 ex_node)\<lparr>node := fold (classify_step ex_ext ex_part ex_node) (interior ex_part) ex_node\<rparr>)"
proof -
  have "fold_option (IIN_visit ex_ext ex_part ex_model) (interior ex_part) ex_node
      = Some (fold (classify_step ex_ext ex_part ex_node) (interior ex_part) ex_node)"
    by (rule IIN_phase_pure) (simp_all add: ex_not_newly)
  then show ?thesis
    by (simp add: IdentifyInterfacialNode_def ex_space_sel)
qed

lemma classify_step_gid: "gid (classify_step ext pt nd t s a) = gid (s a)"
  by (simp add: classify_step_def classified_node_def)

lemma classify_fold_gid: "gid (fold (classify_step ext pt nd) ts s a) = gid (s a)"
  by (induction ts arbitrary: s) (simp_all add: classify_step_gid)

lemma ex_classified_gid:
  "gid (fold (classify_step ex_ext ex_part ex_node) (interior ex_part) ex_node a) = gid (ex_node a)"
  by (rule classify_fold_gid)

text \<open>
  Claim C2, as amended. When the interfacial and ghost phase returns, on a grid whose
  interior nodes have distinct linear indices, every interior node that is owned and
  interfacial has the ghost layer of the first valid neighbour on the search path that
  lies in the open fluid (\<open>gid = 0\<close>): the smallest layer whose separator lies beyond the
  path position of that neighbour, and 0 when there is no such neighbour or no such layer.
  The search is for unowned neighbours, not for neighbours of the same owner.
\<close>

theorem ghost_layer_by_fluid_neighbour:
  assumes "IdentifyInterfacialNode ext sp model = Some sp'"
    and "inj_on (node_index ext (part sp)) (set (interior (part sp)))"
    and "t \<in> set (interior (part sp))"
    and "gid (node sp' (node_index ext (part sp) t)) \<noteq> 0"
    and "lid (node sp' (node_index ext (part sp) t)) \<noteq> 0"
  shows "gst (node sp' (node_index ext (part sp) t))
       = layer_value (part sp) (first_neighbour ext (part sp) (node sp) t (\<lambda>g. g = 0))"
proof -
  from IdentifyInterfacialNode_D [OF assms(1)]
  have f: "fold_option (IIN_visit ext (part sp) model) (interior (part sp)) (node sp) = Some (node sp')"
    by simp
  have d: "distinct (map (node_index ext (part sp)) (interior (part sp)))"
    using assms(2) by (simp add: distinct_map distinct_interior)
  have g: "gid (node sp (node_index ext (part sp) t)) \<noteq> 0"
    using IIN_phase_gid [OF f] assms(4) by simp
  from IIN_phase_owned [OF f d assms(3) g] assms(5) show ?thesis
    by (simp add: gst_spec_def)
qed

theorem ghost_layer_by_fluid_neighbour_witness:
  "IdentifyInterfacialNode ex_ext (ex_space 1 ex_node) ex_model
     = Some ((ex_space 1 ex_node)
         \<lparr>node := fold (classify_step ex_ext ex_part ex_node) (interior ex_part) ex_node\<rparr>)
   \<and> inj_on (node_index ex_ext (part (ex_space 1 ex_node))) (set (interior (part (ex_space 1 ex_node))))
   \<and> (0, 0, 6) \<in> set (interior (part (ex_space 1 ex_node)))
   \<and> gid (fold (classify_step ex_ext ex_part ex_node) (interior ex_part) ex_node 6) = 1
   \<and> lid (fold (classify_step ex_ext ex_part ex_node) (interior ex_part) ex_node 6) = 2
   \<and> gst (fold (classify_step ex_ext ex_part ex_node) (interior ex_part) ex_node 6) = 2
   \<and> layer_value ex_part (first_neighbour ex_ext ex_part ex_node (0, 0, 6) (\<lambda>g. g = 0)) = 2"
proof -
  let ?sp' = "(ex_space 1 ex_node)
         \<lparr>node := fold (classify_step ex_ext ex_part ex_node) (interior ex_part) ex_node\<rparr>"
  have i: "inj_on (node_index ex_ext (part (ex_space 1 ex_node))) (set (interior (part (ex_space 1 ex_node))))"
    by (simp add: ex_space_sel ex_inj)
  have t: "(0, 0, 6) \<in> set (interior (part (ex_space 1 ex_node)))"
    by (simp add: ex_space_sel ex_interior)
  have g: "gid (node ?sp' (node_index ex_ext (part (ex_space 1 ex_node)) (0, 0, 6))) \<noteq> 0"
    by (simp add: ex_space_sel ex_index ex_classified_gid ex_node_def ex_cell_def)
  have l: "lid (node ?sp' (node_index ex_ext (part (ex_space 1 ex_node)) (0, 0, 6))) \<noteq> 0"
    by (simp add: ex_space_sel ex_index ex_classified)
  from ghost_layer_by_fluid_neighbour [OF ex_IIN i t g l]
  have "layer_value ex_part (first_neighbour ex_ext ex_part ex_node (0, 0, 6) (\<lambda>g. g = 0)) = 2"
    by (simp add: ex_space_sel ex_index ex_classified)
  with ex_IIN i t show ?thesis
    by (simp add: ex_classified ex_classified_gid ex_node_def ex_cell_def)
qed

text \<open>
  The claim as the spec states it takes the nearest valid neighbour of the same owner.
  On the concrete grid the node 6 of the sphere is interfacial, its nearest valid
  neighbour of the same owner (node 5) lies in layer 1, and its ghost layer is 2, the
  layer of its nearest fluid neighbour (node 4).
\<close>

theorem ghost_layer_same_owner_counterexample:
  "IdentifyInterfacialNode ex_ext (ex_space 1 ex_node) ex_model
     = Some ((ex_space 1 ex_node)
         \<lparr>node := fold (classify_step ex_ext ex_part ex_node) (interior ex_part) ex_node\<rparr>)
   \<and> gid (fold (classify_step ex_ext ex_part ex_node) (interior ex_part) ex_node 6) = 1
   \<and> lid (fold (classify_step ex_ext ex_part ex_node) (interior ex_part) ex_node 6) = 2
   \<and> gst (fold (classify_step ex_ext ex_part ex_node) (interior ex_part) ex_node 6) = 2
   \<and> ghostLayer_claimed ex_ext ex_part
        (fold (classify_step ex_ext ex_part ex_node) (interior ex_part) ex_node) (0, 0, 6) = 1"
proof -
  let ?nd = "fold (classify_step ex_ext ex_part ex_node) (interior ex_part) ex_node"
  have "first_neighbour ex_ext ex_part ?nd (0, 0, 6) P = first_neighbour ex_ext ex_part ex_node (0, 0, 6) P" for P
    by (rule first_neighbour_cong) (simp add: ex_classified_gid)
  moreover have "layer_value ex_part (first_neighbour ex_ext ex_part ex_node (0, 0, 6) (\<lambda>g. g = 1)) = 1"
    using ex_layer_of ex_gids
    by (simp add: layer_value_def ex_first_neighbour ex_path_index [simplified])
  ultimately have "ghostLayer_claimed ex_ext ex_part ?nd (0, 0, 6) = 1"
    by (simp add: ghostLayer_claimed_def ex_index ex_classified_gid ex_node_def ex_cell_def)
  with ex_IIN show ?thesis
    by (simp add: ex_classified ex_classified_gid ex_node_def ex_cell_def)
qed

lemma fold_option_append:
  "fold_option f (xs @ ys) s =
     (case fold_option f xs s of None \<Rightarrow> None | Some s1 \<Rightarrow> fold_option f ys s1)"
  by (induction xs arbitrary: s) (simp_all split: option.splits)

lemma fold_option_split:
  assumes "fold_option f ts s = Some s'" "t \<in> set ts"
  shows "\<exists>ts1 ts2 s1 s2. ts = ts1 @ t # ts2 \<and> fold_option f ts1 s = Some s1
           \<and> f t s1 = Some s2 \<and> fold_option f ts2 s2 = Some s'"
proof -
  from assms(2) obtain ts1 ts2 where ts: "ts = ts1 @ t # ts2"
    by (auto dest: split_list)
  with assms(1) show ?thesis
    by (auto simp: fold_option_append split: option.splits)
qed

lemma IIN_phase_other:
  assumes "fold_option (IIN_visit ext pt model) ts s = Some s'" "a \<notin> node_index ext pt ` set ts"
  shows "s' a = s a"
  by (rule fold_option_other [OF assms(1) _ assms(2)]) (rule IIN_visit_other)

lemma IIN_phase_old:
  assumes "fold_option (IIN_visit ext pt model) ts s = Some s'" "\<not> newly_joined ext (s a)"
  shows "U (s' a) = U (s a) \<and> fid (s' a) = fid (s a) \<and> gid (s' a) = gid (s a)"
proof (rule fold_option_inv [OF assms(1),
      where P = "\<lambda>x. U (x a) = U (s a) \<and> fid (x a) = fid (s a) \<and> gid (x a) = gid (s a)"])
  fix t x x1
  assume v: "IIN_visit ext pt model t x = Some x1"
    and p: "U (x a) = U (s a) \<and> fid (x a) = fid (s a) \<and> gid (x a) = gid (s a)"
  then have "\<not> newly_joined ext (x a)"
    using assms(2) by (simp add: newly_joined_def)
  from IIN_visit_old [OF v this] IIN_visit_gid [OF v, of a] p
  show "U (x1 a) = U (s a) \<and> fid (x1 a) = fid (s a) \<and> gid (x1 a) = gid (s a)"
    by simp
qed simp

lemma IIN_phase_newly:
  assumes f: "fold_option (IIN_visit ext pt model) ts s = Some s'"
    and d: "distinct (map (node_index ext pt) ts)"
    and t: "t \<in> set ts"
    and n: "newly_joined ext (s (node_index ext pt t))"
  shows "fid (s' (node_index ext pt t)) = NONE ext
     \<and> (\<exists>ts1 ts2 nd weightSum Uo.
           ts = ts1 @ t # ts2
         \<and> fold_option (IIN_visit ext pt model) ts1 s = Some nd
         \<and> InverseDistanceWeighting ext (TO ext) (snd (snd t), fst (snd t), fst t)
              (node_point ext pt t) IBM_R (NONE ext) 0 pt nd model = Some (weightSum, Uo)
         \<and> U (s' (node_index ext pt t)) = (U (s (node_index ext pt t)))
              (TO ext := ConservativeByPrimitive ext (gamma model)
                 ((Normalize DIMUo weightSum Uo)
                    [0 := Normalize DIMUo weightSum Uo ! 4
                          / (Normalize DIMUo weightSum Uo ! 5 * gasR model)])))"
proof -
  let ?a = "node_index ext pt t"
  from fold_option_split [OF f t] obtain ts1 ts2 s1 s2 where
    ts: "ts = ts1 @ t # ts2" and f1: "fold_option (IIN_visit ext pt model) ts1 s = Some s1"
    and v: "IIN_visit ext pt model t s1 = Some s2"
    and f2: "fold_option (IIN_visit ext pt model) ts2 s2 = Some s'"
    by blast
  from d ts have o: "?a \<notin> node_index ext pt ` set ts1" "?a \<notin> node_index ext pt ` set ts2"
    by auto
  have e1: "s1 ?a = s ?a" by (rule IIN_phase_other [OF f1 o(1)])
  have e2: "s' ?a = s2 ?a" by (rule IIN_phase_other [OF f2 o(2)])
  from IIN_visit_D [OF v] n e1 obtain v1 weightSum Uo where
    s2: "s2 = s1(?a := classified_node ext pt s1 t v1)" and g: "gid v1 = gid (s ?a)"
    and fd: "fid v1 = NONE ext"
    and i: "InverseDistanceWeighting ext (TO ext) (snd (snd t), fst (snd t), fst t)
              (node_point ext pt t) IBM_R (NONE ext) 0 pt s1 model = Some (weightSum, Uo)"
    and u: "U v1 = (U (s ?a))
              (TO ext := ConservativeByPrimitive ext (gamma model)
                 ((Normalize DIMUo weightSum Uo)
                    [0 := Normalize DIMUo weightSum Uo ! 4
                          / (Normalize DIMUo weightSum Uo ! 5 * gasR model)]))"
    by auto
  have "gid v1 = 0" using g n by (simp add: newly_joined_def)
  then have "s' ?a = v1" using e2 s2 by (simp add: classified_node_def)
  with fd u ts f1 i show ?thesis by blast
qed

lemma sum_list_times_const_real:
  fixes f :: "'a \<Rightarrow> real"
  shows "(\<Sum>x\<leftarrow>xs. f x * c) = (\<Sum>x\<leftarrow>xs. f x) * c"
  by (induction xs) (simp_all add: distrib_right)

lemma IDW_constant_donors:
  assumes r: "InverseDistanceWeighting ext tn n p h type gidq pt nd model = Some (weightSum, Uo)"
    and t: "0 < tinyL pt"
    and c: "\<And>r d. d \<in> set (IDW_donors ext n type gidq pt nd r) \<Longrightarrow> IDW_Uoh ext tn n pt nd model d = u"
    and l: "length u = DIMUo"
  shows "Normalize DIMUo weightSum Uo = u"
proof -
  from IDW_Some_D [OF r] obtain r where
    ne: "IDW_donors ext n type gidq pt nd r \<noteq> []"
    and ws: "weightSum = (\<Sum>d\<leftarrow>IDW_donors ext n type gidq pt nd r.
                 1 / max (IDW_dist2 ext n p pt d) (tinyL pt))"
    and lu: "length Uo = DIMUo"
    and v: "\<forall>c<DIMUo. Uo ! c =
          (\<Sum>d\<leftarrow>IDW_donors ext n type gidq pt nd r.
             1 / max (IDW_dist2 ext n p pt d) (tinyL pt) * IDW_Uoh ext tn n pt nd model d ! c)"
    by blast
  let ?ds = "IDW_donors ext n type gidq pt nd r"
  let ?w = "\<lambda>d. 1 / max (IDW_dist2 ext n p pt d) (tinyL pt)"
  have wpos: "0 < ?w d" for d
    using t by (simp add: less_max_iff_disj)
  have wspos: "0 < weightSum"
    unfolding ws using ne wpos by (intro sum_list_pos_real) auto
  have "Normalize DIMUo weightSum Uo ! k = u ! k" if k: "k < DIMUo" for k
  proof -
    have "(\<Sum>d\<leftarrow>?ds. ?w d * IDW_Uoh ext tn n pt nd model d ! k) = (\<Sum>d\<leftarrow>?ds. ?w d * u ! k)"
      by (rule arg_cong [where f = sum_list], rule map_cong) (simp_all add: c)
    also have "\<dots> = (\<Sum>d\<leftarrow>?ds. ?w d) * u ! k"
      by (rule sum_list_times_const_real)
    finally have "Uo ! k = weightSum * u ! k"
      using v k ws by simp
    moreover have "Normalize DIMUo weightSum Uo ! k = Uo ! k / weightSum"
      using k lu by (simp add: Normalize_def)
    ultimately show ?thesis using wspos by simp
  qed
  moreover have "length (Normalize DIMUo weightSum Uo) = length u"
    using lu l by (simp add: Normalize_def)
  ultimately show ?thesis
    using l by (intro nth_equalityI) auto
qed

lemma ex_consts: "NONE ex_ext = - 1" "TO ex_ext = 0"
  by (simp_all add: ex_ext_def)

lemma IIN_visit_returns:
  assumes "InverseDistanceWeighting ext (TO ext) (snd (snd t), fst (snd t), fst t)
              (node_point ext pt t) IBM_R (NONE ext) 0 pt nd model = Some (weightSum, Uo)"
  shows "\<exists>nd2. IIN_visit ext pt model t nd = Some nd2"
  using assms by (simp add: IIN_visit_def IIN_reconstruct_def split_beta Let_def)

lemma c3_step2: "IIN_visit ex_ext ex_part ex_model (0, 0, 2) c3_node = Some c3_node"
proof -
  have n: "\<not> newly_joined ex_ext (c3_node (node_index ex_ext ex_part (0, 0, 2)))"
    by (simp add: newly_joined_def ex_index c3_node_def ex_node_def ex_cell_def ex_consts)
  have "classified_node ex_ext ex_part c3_node (0, 0, 2) (c3_node 2) = c3_node 2"
    by (simp add: classified_node_def c3_node_def ex_node_def ex_cell_def)
  then show ?thesis
    using IIN_visit_not_newly [where ext = ex_ext and nd = c3_node and pt = ex_part
        and t = "(0, 0, 2)" and model = ex_model, OF n]
    by (simp add: ex_index)
qed

lemma c3_donor_state:
  assumes "d \<in> set (IDW_donors ex_ext (3, 0, 0) (- 1) 0 ex_part c3_node r)"
  shows "IDW_Uoh ex_ext 0 (3, 0, 0) ex_part c3_node ex_model d = [1, 0, 0, 0, 1, 1]"
proof -
  let ?a = "IDW_index ex_ext (3, 0, 0) ex_part d"
  from assms have "gid (c3_node ?a) = 0 \<and> fid (c3_node ?a) = - 1"
    by (simp add: IDW_donors_def IDW_donor_def split_beta)
  then have "U (c3_node ?a) 0 = [1, 0, 0, 0, 1]"
    by (auto simp: c3_node_def ex_node_def ex_cell_def split: if_splits)
  then show ?thesis
    by (simp add: IDW_Uoh_def ex_ext_def ex_model_def)
qed

lemma c3_donor: "IDW_donors ex_ext (3, 0, 0) (- 1) 0 ex_part c3_node 2 \<noteq> []"
proof -
  have "(0, 0, 1) \<in> set (cube 2)"
    by (simp add: set_cube)
  moreover have "IDW_donor ex_ext (3, 0, 0) (- 1) 0 ex_part c3_node (0, 0, 1)"
    by (simp add: IDW_donor_def IDW_index_def ex_ext_def ex_part_def c3_node_def ex_node_def ex_cell_def)
  ultimately show ?thesis
    by (auto simp: IDW_donors_def filter_empty_conv)
qed

lemma c3_IDW:
  "\<exists>weightSum Uo.
     InverseDistanceWeighting ex_ext 0 (3, 0, 0) p 2 (- 1) 0 ex_part c3_node ex_model = Some (weightSum, Uo)
     \<and> Normalize DIMUo weightSum Uo = [1, 0, 0, 0, 1, 1]"
proof -
  have v: "\<forall>r'. (2 :: int) \<le> r' \<and> r' < 2 \<longrightarrow> IDW_donors ex_ext (3, 0, 0) (- 1) 0 ex_part c3_node r' = []"
    by auto
  have "(2 :: int) \<le> 2" by simp
  from IDW_returns [OF this c3_donor v, of 0 p ex_model] obtain weightSum Uo where
    r: "InverseDistanceWeighting ex_ext 0 (3, 0, 0) p 2 (- 1) 0 ex_part c3_node ex_model = Some (weightSum, Uo)"
    by blast
  have t: "0 < tinyL ex_part" by (simp add: ex_part_def)
  have l: "length [1, 0, 0, 0, 1, 1 :: real] = DIMUo" by (simp add: DIMUo_def)
  have "Normalize DIMUo weightSum Uo = [1, 0, 0, 0, 1, 1]"
    by (rule IDW_constant_donors [OF r t _ l]) (rule c3_donor_state)
  with r show ?thesis
    by blast
qed

lemma c3_step3:
  "\<exists>s3. IIN_visit ex_ext ex_part ex_model (0, 0, 3) c3_node = Some s3
     \<and> (\<forall>a. a \<noteq> 3 \<longrightarrow> s3 a = c3_node a)
     \<and> fid (s3 3) = - 1 \<and> gid (s3 3) = 0 \<and> U (s3 3) 0 = [1, 0, 0, 0, 1]"
proof -
  from c3_IDW [of "node_point ex_ext ex_part (0, 0, 3)"] obtain weightSum Uo where
    r: "InverseDistanceWeighting ex_ext 0 (3, 0, 0) (node_point ex_ext ex_part (0, 0, 3)) 2 (- 1) 0
          ex_part c3_node ex_model = Some (weightSum, Uo)"
    and u: "Normalize DIMUo weightSum Uo = [1, 0, 0, 0, 1, 1]"
    by blast
  from IIN_visit_returns [of ex_ext "(0, 0, 3)" ex_part c3_node ex_model weightSum Uo] r
  obtain s3 where v: "IIN_visit ex_ext ex_part ex_model (0, 0, 3) c3_node = Some s3"
    by (auto simp: ex_consts IBM_R_def)
  have n: "newly_joined ex_ext (c3_node (node_index ex_ext ex_part (0, 0, 3)))"
    by (simp add: newly_joined_def ex_index c3_node_def ex_cell_def ex_consts)
  from IIN_visit_D [OF v] n r obtain v1 where
    s3: "s3 = c3_node(3 := classified_node ex_ext ex_part c3_node (0, 0, 3) v1)"
    and g: "gid v1 = gid (c3_node 3)" and f: "fid v1 = - 1"
    and uu: "U v1 = (U (c3_node 3))
              (0 := ConservativeByPrimitive ex_ext (gamma ex_model)
                 ((Normalize DIMUo weightSum Uo)
                    [0 := Normalize DIMUo weightSum Uo ! 4
                          / (Normalize DIMUo weightSum Uo ! 5 * gasR ex_model)]))"
    by (auto simp: ex_consts ex_index IBM_R_def)
  have g0: "gid v1 = 0" using g by (simp add: c3_node_def ex_cell_def)
  then have e: "s3 3 = v1" using s3 by (simp add: classified_node_def)
  have "U v1 0 = [1, 0, 0, 0, 1]"
    unfolding uu u by (simp add: ex_ext_def ex_model_def)
  with v s3 e f g0 show ?thesis by auto
qed

lemma c3_phase:
  "\<exists>s'. fold_option (IIN_visit ex_ext ex_part ex_model) (interior ex_part) c3_node = Some s'
     \<and> fid (s' 3) = - 1 \<and> gid (s' 3) = 0 \<and> U (s' 3) 0 = [1, 0, 0, 0, 1]"
proof -
  from c3_step3 obtain s3 where v: "IIN_visit ex_ext ex_part ex_model (0, 0, 3) c3_node = Some s3"
    and o: "\<forall>a. a \<noteq> 3 \<longrightarrow> s3 a = c3_node a"
    and p: "fid (s3 3) = - 1" "gid (s3 3) = 0" "U (s3 3) 0 = [1, 0, 0, 0, 1]"
    by blast
  let ?rest = "[(0, 0, 4), (0, 0, 5), (0, 0, 6)] :: IntVec list"
  have nn: "\<forall>t\<in>set ?rest. \<not> newly_joined ex_ext (s3 (node_index ex_ext ex_part t))"
    using o by (simp add: ex_index newly_joined_def c3_node_def ex_node_def ex_cell_def ex_consts)
  have r: "fold_option (IIN_visit ex_ext ex_part ex_model) ?rest s3
         = Some (fold (classify_step ex_ext ex_part s3) ?rest s3)"
    by (rule IIN_phase_pure [OF _ nn]) simp
  have "3 \<notin> node_index ex_ext ex_part ` set ?rest"
    by (simp add: ex_index)
  from classify_fold_other [OF this, of s3 s3]
  have k: "fold (classify_step ex_ext ex_part s3) ?rest s3 3 = s3 3" .
  have "fold_option (IIN_visit ex_ext ex_part ex_model) (interior ex_part) c3_node
      = Some (fold (classify_step ex_ext ex_part s3) ?rest s3)"
    using r v by (simp add: ex_interior c3_step2)
  with k p show ?thesis by (intro exI [of _ "fold (classify_step ex_ext ex_part s3) ?rest s3"]) simp
qed

text \<open>
  Claim C3, as amended. When the interfacial and ghost phase returns, on a grid whose
  interior nodes have distinct linear indices: an interior node whose face identifier
  differs from \<open>NONE\<close> and whose \<open>gid\<close> is 0 when the phase starts is reconstructed at its
  turn of the sweep. \<open>InverseDistanceWeighting\<close> is called on the node array of that
  moment with the range \<open>IBM_R\<close>, the donor type \<open>NONE\<close> and the donor owner 0; the
  accumulated state is normalized, its density is set to pressure over temperature
  times the gas constant, the conservative form is stored at the time level \<open>TO\<close>, and
  the face identifier is set to \<open>NONE\<close>. Every other node keeps its flow state and its
  face identifier.
\<close>

theorem newly_joined_reconstructed:
  assumes "IdentifyInterfacialNode ext sp model = Some sp'"
    and "inj_on (node_index ext (part sp)) (set (interior (part sp)))"
    and "t \<in> set (interior (part sp))"
  shows "if NONE ext \<noteq> fid (node sp (node_index ext (part sp) t))
            \<and> gid (node sp (node_index ext (part sp) t)) = 0
         then fid (node sp' (node_index ext (part sp) t)) = NONE ext
           \<and> (\<exists>ts1 ts2 nd weightSum Uo.
                 interior (part sp) = ts1 @ t # ts2
               \<and> fold_option (IIN_visit ext (part sp) model) ts1 (node sp) = Some nd
               \<and> InverseDistanceWeighting ext (TO ext) (snd (snd t), fst (snd t), fst t)
                    (node_point ext (part sp) t) IBM_R (NONE ext) 0 (part sp) nd model
                  = Some (weightSum, Uo)
               \<and> U (node sp' (node_index ext (part sp) t))
                  = (U (node sp (node_index ext (part sp) t)))
                      (TO ext := ConservativeByPrimitive ext (gamma model)
                         ((Normalize DIMUo weightSum Uo)
                            [0 := Normalize DIMUo weightSum Uo ! 4
                                  / (Normalize DIMUo weightSum Uo ! 5 * gasR model)])))
         else U (node sp' (node_index ext (part sp) t)) = U (node sp (node_index ext (part sp) t))
           \<and> fid (node sp' (node_index ext (part sp) t)) = fid (node sp (node_index ext (part sp) t))"
proof -
  from IdentifyInterfacialNode_D [OF assms(1)]
  have f: "fold_option (IIN_visit ext (part sp) model) (interior (part sp)) (node sp) = Some (node sp')"
    by simp
  have d: "distinct (map (node_index ext (part sp)) (interior (part sp)))"
    using assms(2) by (simp add: distinct_map distinct_interior)
  show ?thesis
  proof (cases "newly_joined ext (node sp (node_index ext (part sp) t))")
    case True
    from IIN_phase_newly [OF f d assms(3) True] True show ?thesis
      by (simp add: newly_joined_def)
  next
    case False
    from IIN_phase_old [OF f False] False show ?thesis
      by (simp add: newly_joined_def)
  qed
qed

lemma c3_IIN:
  "\<exists>sp'. IdentifyInterfacialNode ex_ext (ex_space 1 c3_node) ex_model = Some sp'
     \<and> fid (node sp' 3) = - 1 \<and> gid (node sp' 3) = 0 \<and> U (node sp' 3) 0 = [1, 0, 0, 0, 1]"
proof -
  from c3_phase obtain s' where
    "fold_option (IIN_visit ex_ext ex_part ex_model) (interior ex_part) c3_node = Some s'"
    "fid (s' 3) = - 1" "gid (s' 3) = 0" "U (s' 3) 0 = [1, 0, 0, 0, 1]"
    by blast
  then show ?thesis
    by (simp add: IdentifyInterfacialNode_def ex_space_sel)
qed

theorem newly_joined_reconstructed_witness:
  "\<exists>sp'. IdentifyInterfacialNode ex_ext (ex_space 1 c3_node) ex_model = Some sp'
     \<and> inj_on (node_index ex_ext (part (ex_space 1 c3_node))) (set (interior (part (ex_space 1 c3_node))))
     \<and> (0, 0, 3) \<in> set (interior (part (ex_space 1 c3_node)))
     \<and> NONE ex_ext \<noteq> fid (c3_node 3) \<and> gid (c3_node 3) = 0
     \<and> fid (node sp' 3) = NONE ex_ext
     \<and> (0, 0, 4) \<in> set (interior (part (ex_space 1 c3_node)))
     \<and> fid (c3_node 4) = NONE ex_ext
     \<and> U (node sp' 4) = U (c3_node 4) \<and> fid (node sp' 4) = fid (c3_node 4)"
proof -
  from c3_IIN obtain sp' where
    r: "IdentifyInterfacialNode ex_ext (ex_space 1 c3_node) ex_model = Some sp'"
    by blast
  have i: "inj_on (node_index ex_ext (part (ex_space 1 c3_node))) (set (interior (part (ex_space 1 c3_node))))"
    by (simp add: ex_space_sel ex_inj)
  have t3: "(0, 0, 3) \<in> set (interior (part (ex_space 1 c3_node)))"
    and t4: "(0, 0, 4) \<in> set (interior (part (ex_space 1 c3_node)))"
    by (simp_all add: ex_space_sel ex_interior)
  have c: "NONE ex_ext \<noteq> fid (c3_node 3)" "gid (c3_node 3) = 0" "fid (c3_node 4) = NONE ex_ext"
    by (simp_all add: c3_node_def ex_node_def ex_cell_def ex_consts)
  from newly_joined_reconstructed [OF r i t3] c
  have a: "fid (node sp' 3) = NONE ex_ext"
    by (simp add: ex_space_sel ex_index)
  from newly_joined_reconstructed [OF r i t4] c
  have b: "U (node sp' 4) = U (c3_node 4) \<and> fid (node sp' 4) = fid (c3_node 4)"
    by (simp add: ex_space_sel ex_index)
  from r i t3 t4 c a b show ?thesis by blast
qed

text \<open>
  The claim as the spec states it reconstructs the interior nodes whose face identifier
  equals \<open>NONE\<close>. On the concrete grid the unowned node 3 carries the face identifier 0,
  which is not \<open>NONE\<close>: the phase returns, has replaced the flow state of the node by
  the state interpolated from its neighbours, and has set its face identifier to \<open>NONE\<close>.
\<close>

theorem newly_exposed_counterexample:
  "IdentifyInterfacialNode ex_ext (ex_space 1 c3_node) ex_model \<noteq> None
   \<and> \<not> newly_exposed_claimed ex_ext (c3_node 3)
   \<and> gid (c3_node 3) = 0
   \<and> fid (c3_node 3) = 0
   \<and> U (c3_node 3) (TO ex_ext) = [1, 0, 0, 0, 5]
   \<and> fid (node (the (IdentifyInterfacialNode ex_ext (ex_space 1 c3_node) ex_model)) 3) = NONE ex_ext
   \<and> U (node (the (IdentifyInterfacialNode ex_ext (ex_space 1 c3_node) ex_model)) 3) (TO ex_ext)
       = [1, 0, 0, 0, 1]"
proof -
  from c3_IIN obtain sp' where
    r: "IdentifyInterfacialNode ex_ext (ex_space 1 c3_node) ex_model = Some sp'"
    and p: "fid (node sp' 3) = - 1" "U (node sp' 3) 0 = [1, 0, 0, 0, 1]"
    by blast
  have "\<not> newly_exposed_claimed ex_ext (c3_node 3)" "gid (c3_node 3) = 0" "fid (c3_node 3) = 0"
    "U (c3_node 3) (TO ex_ext) = [1, 0, 0, 0, 5]"
    by (simp_all add: newly_exposed_claimed_def c3_node_def ex_cell_def ex_consts)
  with r p show ?thesis
    by (simp add: ex_consts)
qed

lemma IGN_fold_other:
  assumes "a \<notin> node_index ext pt ` set ts"
  shows "fold (IGN_visit ext pt n ply) ts nd a = nd a"
proof (rule fold_option_other [where f = "\<lambda>t s. Some (IGN_visit ext pt n ply t s)"
      and ix = "node_index ext pt" and ts = ts])
  show "fold_option (\<lambda>t s. Some (IGN_visit ext pt n ply t s)) ts nd = Some (fold (IGN_visit ext pt n ply) ts nd)"
    by (rule fold_option_Some)
qed (use assms in \<open>auto simp: IGN_visit_eq\<close>)

lemma IGN_fold_at:
  assumes "distinct (map (node_index ext pt) ts)" "t \<in> set ts"
  shows "fold (IGN_visit ext pt n ply) ts nd (node_index ext pt t)
       = IGN_node ext pt n ply t (nd (node_index ext pt t))"
proof (rule fold_option_at [where f = "\<lambda>t s. Some (IGN_visit ext pt n ply t s)"
      and ix = "node_index ext pt" and ts = ts and I = "\<lambda>_. True"
      and P = "\<lambda>t v v'. v' = IGN_node ext pt n ply t v"])
  show "fold_option (\<lambda>t s. Some (IGN_visit ext pt n ply t s)) ts nd = Some (fold (IGN_visit ext pt n ply) ts nd)"
    by (rule fold_option_Some)
qed (use assms in \<open>auto simp: IGN_visit_eq\<close>)

lemma IGN_poly_at:
  assumes i: "inj_on (node_index ext pt) D"
    and b: "set (search_box ext pt (poly g n)) \<subseteq> D"
    and t: "t \<in> D"
  shows "IGN_poly ext pt g n nd (node_index ext pt t)
       = (if tested ext pt g n t then IGN_node ext pt n (poly g n) t (nd (node_index ext pt t))
          else nd (node_index ext pt t))"
proof (cases "1 = poly_state (poly g n)")
  case True
  then show ?thesis by (simp add: IGN_poly_def tested_def)
next
  case False
  let ?box = "search_box ext pt (poly g n)"
  have d: "distinct (map (node_index ext pt) ?box)"
    using inj_on_subset [OF i b] by (simp add: distinct_map distinct_search_box)
  show ?thesis
  proof (cases "t \<in> set ?box")
    case True
    with False IGN_fold_at [OF d True] show ?thesis
      by (simp add: IGN_poly_def tested_def)
  next
    case nb: False
    have "node_index ext pt t \<notin> node_index ext pt ` set ?box"
    proof
      assume "node_index ext pt t \<in> node_index ext pt ` set ?box"
      then obtain t' where t': "t' \<in> set ?box" "node_index ext pt t = node_index ext pt t'"
        by auto
      with i b t have "t = t'" by (auto dest: inj_onD)
      with t' nb show False by simp
    qed
    from IGN_fold_other [OF this] False nb show ?thesis
      by (simp add: IGN_poly_def tested_def)
  qed
qed

lemma IGN_phase_owned:
  assumes "gid (nd a) \<noteq> 0"
  shows "fold (IGN_poly ext pt g) ns nd a = nd a"
  by (rule IGN_phase_pres [where P = "\<lambda>v. v = nd a"]) (use assms in \<open>simp_all add: IGN_node_owned\<close>)

lemma IGN_phase_at:
  assumes i: "inj_on (node_index ext pt) D"
    and b: "\<forall>n\<in>set ns. set (search_box ext pt (poly g n)) \<subseteq> D"
    and t: "t \<in> D"
    and u: "gid (nd (node_index ext pt t)) = 0"
  shows "fold (IGN_poly ext pt g) ns nd (node_index ext pt t)
       = (case find (\<lambda>n. tested ext pt g n t \<and> inside_shape ext pt (poly g n) t) ns of
            None \<Rightarrow> nd (node_index ext pt t)
          | Some n \<Rightarrow> IGN_node ext pt n (poly g n) t (nd (node_index ext pt t)))"
  using b u
proof (induction ns arbitrary: nd)
  case Nil
  then show ?case by simp
next
  case (Cons n ns)
  let ?a = "node_index ext pt t"
  let ?nd1 = "IGN_poly ext pt g n nd"
  have b1: "set (search_box ext pt (poly g n)) \<subseteq> D" and b2: "\<forall>n\<in>set ns. set (search_box ext pt (poly g n)) \<subseteq> D"
    using Cons.prems(1) by simp_all
  have at: "?nd1 ?a = (if tested ext pt g n t then IGN_node ext pt n (poly g n) t (nd ?a) else nd ?a)"
    by (rule IGN_poly_at [OF i b1 t])
  show ?case
  proof (cases "tested ext pt g n t \<and> inside_shape ext pt (poly g n) t")
    case True
    then have "gid (?nd1 ?a) \<noteq> 0"
      using at Cons.prems(2) by (simp add: IGN_node_def)
    from IGN_phase_owned [where nd = ?nd1 and a = ?a and ext = ext and pt = pt and g = g
        and ns = ns, OF this] at True
    show ?thesis
      by simp
  next
    case False
    then have e: "?nd1 ?a = nd ?a"
      using at Cons.prems(2) by (auto simp: IGN_node_def)
    then have "gid (?nd1 ?a) = 0" using Cons.prems(2) by simp
    from Cons.IH [of ?nd1, OF b2 this]
    have "fold (IGN_poly ext pt g) ns ?nd1 ?a
        = (case find (\<lambda>n. tested ext pt g n t \<and> inside_shape ext pt (poly g n) t) ns of
            None \<Rightarrow> nd ?a
          | Some n \<Rightarrow> IGN_node ext pt n (poly g n) t (nd ?a))"
      unfolding e .
    with False show ?thesis by auto
  qed
qed

lemma Dist2_nonneg: "0 \<le> Dist2 a b"
  by (simp add: Dist2_def split_beta)

lemma sqrt_le_radius:
  assumes "0 \<le> r"
  shows "sqrt (Dist2 a b) \<le> r \<longleftrightarrow> r * r \<ge> Dist2 a b"
proof -
  have "sqrt (Dist2 a b) \<le> r \<longleftrightarrow> sqrt (Dist2 a b) \<le> sqrt (r * r)"
    using assms by simp
  also have "\<dots> \<longleftrightarrow> Dist2 a b \<le> r * r"
    by (rule real_sqrt_le_iff)
  finally show ?thesis by simp
qed

text \<open>
  Claim C4. In the ownership phase, the sweep of a non-stationary analytical sphere
  (\<open>faceN = 0\<close>) of radius \<open>r \<ge> 0\<close> over its search box, on nodes with distinct linear
  indices: a node of the box that is unowned when the sweep starts is owned by the
  sphere afterwards exactly when its distance from the centre is at most \<open>r\<close>, which is the
  comparison \<open>r * r \<ge> Dist2\<close> of the source; a claimed node gets the owner \<open>n + 1\<close> and the
  face identifier 0, and a node outside stays as it is.
\<close>

theorem sphere_claims_nodes_within_radius:
  assumes "poly_faceN (poly g n) = 0"
    and "poly_state (poly g n) \<noteq> 1"
    and "0 \<le> poly_r (poly g n)"
    and "inj_on (node_index ext pt) (set (search_box ext pt (poly g n)))"
    and "t \<in> set (search_box ext pt (poly g n))"
    and "gid (nd (node_index ext pt t)) = 0"
  shows "(gid (IGN_poly ext pt g n nd (node_index ext pt t)) = int n + 1
            \<longleftrightarrow> sqrt (Dist2 (poly_O (poly g n)) (node_point ext pt t)) \<le> poly_r (poly g n))
       \<and> (sqrt (Dist2 (poly_O (poly g n)) (node_point ext pt t)) \<le> poly_r (poly g n)
            \<longleftrightarrow> poly_r (poly g n) * poly_r (poly g n) \<ge> Dist2 (poly_O (poly g n)) (node_point ext pt t))
       \<and> IGN_poly ext pt g n nd (node_index ext pt t)
           = (if sqrt (Dist2 (poly_O (poly g n)) (node_point ext pt t)) \<le> poly_r (poly g n)
              then (nd (node_index ext pt t))\<lparr>gid := int n + 1, fid := 0\<rparr>
              else nd (node_index ext pt t))"
proof -
  have "tested ext pt g n t"
    using assms(2,5) by (simp add: tested_def)
  with IGN_poly_at [where D = "set (search_box ext pt (poly g n))" and nd = nd,
      OF assms(4) subset_refl assms(5)]
  have "IGN_poly ext pt g n nd (node_index ext pt t)
      = IGN_node ext pt n (poly g n) t (nd (node_index ext pt t))"
    by simp
  then show ?thesis
    using assms(1,6) sqrt_le_radius [OF assms(3), of "poly_O (poly g n)" "node_point ext pt t"]
    by (simp add: IGN_node_def inside_shape_def)
qed

lemma c9_box: "search_box ex_ext ex_part (poly c9_geo n) = [(0, 0, 5), (0, 0, 6)]"
  by (simp add: c9_geo_def ex_box)
    (simp add: search_box_def box_nodes_def ex_part_def ex_ext_def ex_sphere_def upto.simps)

lemma ex_points: "node_point ex_ext ex_part (0, 0, i) = (real_of_int i - 2, - 2, - 2)"
  by (simp add: node_point_def ex_ext_def ex_part_def)

theorem sphere_claims_nodes_within_radius_witness:
  "poly_faceN (poly c9_geo 1) = 0 \<and> poly_state (poly c9_geo 1) \<noteq> 1 \<and> 0 \<le> poly_r (poly c9_geo 1)
   \<and> inj_on (node_index ex_ext ex_part) (set (search_box ex_ext ex_part (poly c9_geo 1)))
   \<and> (0, 0, 5) \<in> set (search_box ex_ext ex_part (poly c9_geo 1))
   \<and> gid (c4_node (node_index ex_ext ex_part (0, 0, 5))) = 0
   \<and> sqrt (Dist2 (poly_O (poly c9_geo 1)) (node_point ex_ext ex_part (0, 0, 5))) = 1
   \<and> poly_r (poly c9_geo 1) = 1
   \<and> IGN_poly ex_ext ex_part c9_geo 1 c4_node 5 = (c4_node 5)\<lparr>gid := 2, fid := 0\<rparr>
   \<and> poly_faceN (poly c9_geo 0) = 0 \<and> poly_state (poly c9_geo 0) \<noteq> 1 \<and> 0 \<le> poly_r (poly c9_geo 0)
   \<and> inj_on (node_index ex_ext ex_part) (set (search_box ex_ext ex_part (poly c9_geo 0)))
   \<and> (0, 0, 5) \<in> set (search_box ex_ext ex_part (poly c9_geo 0))
   \<and> poly_r (poly c9_geo 0) = 1 / 2
   \<and> IGN_poly ex_ext ex_part c9_geo 0 c4_node 5 = c4_node 5"
proof -
  have h1: "poly_faceN (poly c9_geo 1) = 0" "poly_state (poly c9_geo 1) \<noteq> 1" "0 \<le> poly_r (poly c9_geo 1)"
    "poly_r (poly c9_geo 1) = 1" "poly_O (poly c9_geo 1) = (4, - 2, - 2)"
    and h0: "poly_faceN (poly c9_geo 0) = 0" "poly_state (poly c9_geo 0) \<noteq> 1" "0 \<le> poly_r (poly c9_geo 0)"
    "poly_r (poly c9_geo 0) = 1 / 2" "poly_O (poly c9_geo 0) = (4, - 2, - 2)"
    by (simp_all add: c9_geo_def ex_sphere_def)
  have i: "inj_on (node_index ex_ext ex_part) (set (search_box ex_ext ex_part (poly c9_geo n)))" for n
    by (simp add: c9_box ex_index)
  have t: "(0, 0, 5) \<in> set (search_box ex_ext ex_part (poly c9_geo n))" for n
    by (simp add: c9_box)
  have u: "gid (c4_node (node_index ex_ext ex_part (0, 0, 5))) = 0"
    by (simp add: ex_index c4_node_def ex_cell_def)
  have d: "Dist2 (4, - 2, - 2) (node_point ex_ext ex_part (0, 0, 5)) = 1"
    by (simp add: ex_points Dist2_def)
  from sphere_claims_nodes_within_radius [where g = c9_geo and n = 1 and ext = ex_ext
      and pt = ex_part and t = "(0, 0, 5)" and nd = c4_node, OF h1(1,2,3) i t u]
  have a: "IGN_poly ex_ext ex_part c9_geo 1 c4_node 5 = (c4_node 5)\<lparr>gid := 2, fid := 0\<rparr>"
    by (simp del: One_nat_def add: h1 d ex_index)
  from sphere_claims_nodes_within_radius [where g = c9_geo and n = 0 and ext = ex_ext
      and pt = ex_part and t = "(0, 0, 5)" and nd = c4_node, OF h0(1,2,3) i t u]
  have b: "IGN_poly ex_ext ex_part c9_geo 0 c4_node 5 = c4_node 5"
    by (simp del: One_nat_def add: h0 d ex_index)
  from h1 h0 i t u d a b show ?thesis
    by (simp del: One_nat_def)
qed

text \<open>
  Claim C9, as amended. In the ownership phase every step leaves an owned node as it is,
  and changes the owner of a node only from 0 to the identifier \<open>n + 1\<close> of the shape \<open>n\<close>
  being swept: an owner that is 0 or the identifier of a shape of the collection stays so
  at every step and after the phase. After the phase, on nodes with distinct linear
  indices, a node that was owned when the phase started is as it was, and a node that was
  unowned is owned by the lowest-indexed shape that the phase tests at this node (a
  non-stationary shape whose search box holds the node) and that contains its point, and
  is unowned when there is no such shape. Stationary shapes are skipped: they claim no
  node in this phase.
\<close>

theorem ownership_first_claim_wins:
  assumes "inj_on (node_index ext (part sp)) D"
    and "\<forall>n<totN (geo sp). set (search_box ext (part sp) (poly (geo sp) n)) \<subseteq> D"
  shows "(\<forall>n t nd a. gid (nd a) \<noteq> 0 \<longrightarrow> IGN_visit ext (part sp) n (poly (geo sp) n) t nd a = nd a)
       \<and> (\<forall>n t nd a. gid (IGN_visit ext (part sp) n (poly (geo sp) n) t nd a) = gid (nd a)
              \<or> (gid (nd a) = 0 \<and> gid (IGN_visit ext (part sp) n (poly (geo sp) n) t nd a) = int n + 1))
       \<and> (\<forall>n<totN (geo sp). \<forall>t nd a.
              0 \<le> gid (nd a) \<and> gid (nd a) \<le> int (totN (geo sp)) \<longrightarrow>
              0 \<le> gid (IGN_visit ext (part sp) n (poly (geo sp) n) t nd a)
              \<and> gid (IGN_visit ext (part sp) n (poly (geo sp) n) t nd a) \<le> int (totN (geo sp)))
       \<and> (\<forall>a. gid (node sp a) \<noteq> 0 \<longrightarrow> node (IdentifyGeometryNode ext sp) a = node sp a)
       \<and> (\<forall>a. 0 \<le> gid (node sp a) \<and> gid (node sp a) \<le> int (totN (geo sp)) \<longrightarrow>
              0 \<le> gid (node (IdentifyGeometryNode ext sp) a)
              \<and> gid (node (IdentifyGeometryNode ext sp) a) \<le> int (totN (geo sp)))
       \<and> (\<forall>t\<in>D. gid (node sp (node_index ext (part sp) t)) = 0 \<longrightarrow>
              gid (node (IdentifyGeometryNode ext sp) (node_index ext (part sp) t))
              = (case find (\<lambda>n. tested ext (part sp) (geo sp) n t
                                \<and> inside_shape ext (part sp) (poly (geo sp) n) t)
                        [0..<totN (geo sp)] of
                   None \<Rightarrow> 0
                 | Some n \<Rightarrow> int n + 1))"
proof (intro conjI allI impI ballI)
  fix n t a and nd :: "int \<Rightarrow> Node"
  assume "gid (nd a) \<noteq> 0"
  then show "IGN_visit ext (part sp) n (poly (geo sp) n) t nd a = nd a"
    by (cases "a = node_index ext (part sp) t") (simp_all add: IGN_visit_eq IGN_node_owned)
next
  fix n t a and nd :: "int \<Rightarrow> Node"
  show "gid (IGN_visit ext (part sp) n (poly (geo sp) n) t nd a) = gid (nd a)
      \<or> (gid (nd a) = 0 \<and> gid (IGN_visit ext (part sp) n (poly (geo sp) n) t nd a) = int n + 1)"
    using IGN_node_gid [of ext "part sp" n "poly (geo sp) n" t "nd a"]
    by (cases "a = node_index ext (part sp) t") (simp_all add: IGN_visit_eq)
next
  fix n t a and nd :: "int \<Rightarrow> Node"
  assume n: "n < totN (geo sp)" and r: "0 \<le> gid (nd a) \<and> gid (nd a) \<le> int (totN (geo sp))"
  then show "0 \<le> gid (IGN_visit ext (part sp) n (poly (geo sp) n) t nd a)"
    and "gid (IGN_visit ext (part sp) n (poly (geo sp) n) t nd a) \<le> int (totN (geo sp))"
    using IGN_node_gid [of ext "part sp" n "poly (geo sp) n" t "nd a"]
    by (cases "a = node_index ext (part sp) t"; auto simp: IGN_visit_eq)+
next
  fix a
  assume "gid (node sp a) \<noteq> 0"
  then show "node (IdentifyGeometryNode ext sp) a = node sp a"
    by (simp add: IdentifyGeometryNode_def IGN_phase_owned)
next
  fix a
  assume r: "0 \<le> gid (node sp a) \<and> gid (node sp a) \<le> int (totN (geo sp))"
  have "0 \<le> gid (fold (IGN_poly ext (part sp) (geo sp)) [0..<totN (geo sp)] (node sp) a)
      \<and> gid (fold (IGN_poly ext (part sp) (geo sp)) [0..<totN (geo sp)] (node sp) a) \<le> int (totN (geo sp))"
  proof (rule IGN_phase_pres [where P = "\<lambda>v. 0 \<le> gid v \<and> gid v \<le> int (totN (geo sp))"])
    fix n t and v :: Node
    assume "n \<in> set [0..<totN (geo sp)]" "0 \<le> gid v \<and> gid v \<le> int (totN (geo sp))"
    then show "0 \<le> gid (IGN_node ext (part sp) n (poly (geo sp) n) t v)
             \<and> gid (IGN_node ext (part sp) n (poly (geo sp) n) t v) \<le> int (totN (geo sp))"
      using IGN_node_gid [of ext "part sp" n "poly (geo sp) n" t v] by auto
  qed (rule r)
  then show "0 \<le> gid (node (IdentifyGeometryNode ext sp) a)"
    and "gid (node (IdentifyGeometryNode ext sp) a) \<le> int (totN (geo sp))"
    by (simp_all add: IdentifyGeometryNode_def)
next
  fix t
  assume t: "t \<in> D" and u: "gid (node sp (node_index ext (part sp) t)) = 0"
  have b: "\<forall>n\<in>set [0..<totN (geo sp)]. set (search_box ext (part sp) (poly (geo sp) n)) \<subseteq> D"
    using assms(2) by simp
  let ?a = "node_index ext (part sp) t"
  let ?P = "\<lambda>n. tested ext (part sp) (geo sp) n t \<and> inside_shape ext (part sp) (poly (geo sp) n) t"
  have at: "fold (IGN_poly ext (part sp) (geo sp)) [0..<totN (geo sp)] (node sp) ?a
      = (case find ?P [0..<totN (geo sp)] of
           None \<Rightarrow> node sp ?a
         | Some n \<Rightarrow> IGN_node ext (part sp) n (poly (geo sp) n) t (node sp ?a))"
    by (rule IGN_phase_at [where nd = "node sp" and g = "geo sp" and ns = "[0..<totN (geo sp)]",
          OF assms(1) b t u])
  show "gid (node (IdentifyGeometryNode ext sp) ?a)
      = (case find ?P [0..<totN (geo sp)] of None \<Rightarrow> 0 | Some n \<Rightarrow> int n + 1)"
  proof (cases "find ?P [0..<totN (geo sp)]")
    case None
    with at u show ?thesis by (simp add: IdentifyGeometryNode_def)
  next
    case (Some m)
    then have "?P m" by (auto simp: find_Some_iff)
    with at u Some show ?thesis
      by (simp add: IdentifyGeometryNode_def IGN_node_def)
  qed
qed

lemma ex_upt2: "[0..<2] = [0, 1]"
  by code_simp

theorem ownership_first_claim_wins_witness:
  "inj_on (node_index ex_ext (part c9_space)) (set (interior ex_part))
   \<and> set (search_box ex_ext (part c9_space) (poly (geo c9_space) 0)) \<subseteq> set (interior ex_part)
   \<and> set (search_box ex_ext (part c9_space) (poly (geo c9_space) 1)) \<subseteq> set (interior ex_part)
   \<and> totN (geo c9_space) = 2
   \<and> gid (node c9_space 5) = 0 \<and> gid (node c9_space 6) = 0
   \<and> inside_shape ex_ext ex_part (poly c9_geo 1) (0, 0, 6)
   \<and> gid (node (IdentifyGeometryNode ex_ext c9_space) 6) = 1
   \<and> gid (node (IdentifyGeometryNode ex_ext c9_space) 5) = 2"
proof -
  have sel: "part c9_space = ex_part" "geo c9_space = c9_geo" "node c9_space = c4_node"
    "totN c9_geo = 2"
    by (simp_all add: c9_space_def c9_geo_def)
  have i: "inj_on (node_index ex_ext (part c9_space)) (set (interior ex_part))"
    by (simp add: sel ex_inj)
  have bx: "set (search_box ex_ext ex_part (poly c9_geo n)) \<subseteq> set (interior ex_part)" for n
    by (simp add: c9_box ex_interior)
  then have b: "\<forall>n<totN (geo c9_space). set (search_box ex_ext (part c9_space) (poly (geo c9_space) n))
                  \<subseteq> set (interior ex_part)"
    by (simp add: sel)
  have t: "(0, 0, 5) \<in> set (interior ex_part)" "(0, 0, 6) \<in> set (interior ex_part)"
    by (simp_all add: ex_interior)
  have u: "gid (c4_node 5) = 0" "gid (c4_node 6) = 0"
    by (simp_all add: c4_node_def ex_cell_def)
  have ts: "tested ex_ext ex_part c9_geo n (0, 0, 5)" "tested ex_ext ex_part c9_geo n (0, 0, 6)" for n
    by (simp_all add: tested_def c9_box) (simp_all add: c9_geo_def ex_sphere_def)
  have ins: "\<not> inside_shape ex_ext ex_part (poly c9_geo 0) (0, 0, 5)"
    "inside_shape ex_ext ex_part (poly c9_geo (Suc 0)) (0, 0, 5)"
    "inside_shape ex_ext ex_part (poly c9_geo 0) (0, 0, 6)"
    "inside_shape ex_ext ex_part (poly c9_geo (Suc 0)) (0, 0, 6)"
    by (simp_all add: inside_shape_def c9_geo_def ex_sphere_def ex_points Dist2_def)
  have c6: "\<forall>t\<in>set (interior ex_part).
      gid (node c9_space (node_index ex_ext (part c9_space) t)) = 0 \<longrightarrow>
      gid (node (IdentifyGeometryNode ex_ext c9_space) (node_index ex_ext (part c9_space) t))
      = (case find (\<lambda>n. tested ex_ext (part c9_space) (geo c9_space) n t
                        \<and> inside_shape ex_ext (part c9_space) (poly (geo c9_space) n) t)
                [0..<totN (geo c9_space)] of
           None \<Rightarrow> 0
         | Some n \<Rightarrow> int n + 1)"
    using ownership_first_claim_wins [OF i b] by (elim conjE) assumption
  from bspec [OF c6 t(2)] u
  have g6: "gid (node (IdentifyGeometryNode ex_ext c9_space) 6) = 1"
    by (simp add: sel ex_index ex_upt2 ts ins)
  from bspec [OF c6 t(1)] u
  have g5: "gid (node (IdentifyGeometryNode ex_ext c9_space) 5) = 2"
    by (simp add: sel ex_index ex_upt2 ts ins)
  from g5 g6 i bx u ins show ?thesis
    by (simp add: sel)
qed

lemma IGN_node_not_newly:
  "\<not> newly_joined ext v \<Longrightarrow> \<not> newly_joined ext (IGN_node ext pt n ply t v)"
  by (auto simp: IGN_node_def newly_joined_def)

lemma c9s_sel:
  "part c9s_space = ex_part" "geo c9s_space = c9s_geo" "node c9s_space = c4_node"
  "totN c9s_geo = 2" "poly c9s_geo 0 = ex_sphere 1" "poly c9s_geo (Suc 0) = ex_sphere 0"
  by (simp_all add: c9s_space_def c9s_geo_def)

lemma c9s_box: "search_box ex_ext ex_part (poly c9s_geo n) = [(0, 0, 5), (0, 0, 6)]"
  by (simp add: c9s_geo_def ex_box)

lemma c9s_inside: "inside_shape ex_ext ex_part (ex_sphere st) (0, 0, 6)"
  by (simp add: inside_shape_def ex_sphere_def ex_points Dist2_def)

lemma c9s_IGN:
  "gid (fold (IGN_poly ex_ext ex_part c9s_geo) [0..<2] c4_node 6) = 2"
proof -
  have b: "\<forall>n\<in>set [0..<2]. set (search_box ex_ext ex_part (poly c9s_geo n)) \<subseteq> set (interior ex_part)"
    by (simp add: c9s_box ex_interior)
  have t: "(0, 0, 6) \<in> set (interior ex_part)" by (simp add: ex_interior)
  have u: "gid (c4_node (node_index ex_ext ex_part (0, 0, 6))) = 0"
    by (simp add: c4_node_def ex_cell_def ex_index)
  have ts: "\<not> tested ex_ext ex_part c9s_geo 0 (0, 0, 6)" "tested ex_ext ex_part c9s_geo (Suc 0) (0, 0, 6)"
    by (simp_all add: tested_def c9s_box) (simp_all add: c9s_geo_def ex_sphere_def)
  from IGN_phase_at [where nd = c4_node and g = c9s_geo, OF ex_inj b t u] u show ?thesis
    by (simp add: ex_index ex_upt2 ts c9s_sel c9s_inside IGN_node_def)
qed

lemma c9s_Init: "InitializeGeometryDomain ex_ext c9s_space = c9s_space"
proof -
  have "fold (Init_visit ex_ext ex_part c9s_geo) (interior ex_part) c4_node = c4_node"
  proof (rule fold_fixed, rule ballI)
    fix t assume "t \<in> set (interior ex_part)"
    then show "Init_visit ex_ext ex_part c9s_geo t c4_node = c4_node"
      by (auto simp: ex_interior Init_visit_def ex_index Init_node_def c4_node_def ex_cell_def)
  qed
  then show ?thesis
    by (simp add: InitializeGeometryDomain_def c9s_space_def)
qed

lemma c9s_returns:
  "\<exists>sp'. ComputeGeometryDomain ex_ext c9s_space ex_model = Some sp' \<and> gid (node sp' 6) = 2"
proof -
  let ?s2 = "fold (IGN_poly ex_ext ex_part c9s_geo) [0..<2] c4_node"
  have n: "\<not> newly_joined ex_ext (?s2 a)" for a
  proof (rule IGN_phase_pres [where P = "\<lambda>v. \<not> newly_joined ex_ext v"])
    fix n t and v :: Node
    assume "\<not> newly_joined ex_ext v"
    then show "\<not> newly_joined ex_ext (IGN_node ex_ext ex_part n (poly c9s_geo n) t v)"
      by (rule IGN_node_not_newly)
  next
    show "\<not> newly_joined ex_ext (c4_node a)"
      by (simp add: newly_joined_def c4_node_def ex_cell_def ex_consts)
  qed
  have "fold_option (IIN_visit ex_ext ex_part ex_model) (interior ex_part) ?s2
      = Some (fold (classify_step ex_ext ex_part ?s2) (interior ex_part) ?s2)"
    by (rule IIN_phase_pure) (simp_all add: n)
  then have "ComputeGeometryDomain ex_ext c9s_space ex_model
      = Some (c9s_space\<lparr>node := fold (classify_step ex_ext ex_part ?s2) (interior ex_part) ?s2\<rparr>)"
    by (simp add: ComputeGeometryDomain_def c9s_Init IdentifyGeometryNode_def
        IdentifyInterfacialNode_def c9s_sel)
  moreover have "gid (fold (classify_step ex_ext ex_part ?s2) (interior ex_part) ?s2 6) = 2"
    by (simp add: classify_fold_gid c9s_IGN)
  ultimately show ?thesis by simp
qed

text \<open>
  The claim as the spec states it gives a node inside several shapes to the lowest-indexed
  shape that contains it. On the concrete grid the stationary sphere 0 and the moving
  sphere 1 have the same bounding box and both contain the unowned node 6: the claim gives
  the node to the sphere 0, identifier 1. The ownership phase skips the stationary sphere
  and gives the node to the sphere 1, identifier 2, and so does the whole classification.
\<close>

theorem ownership_stationary_skipped_counterexample:
  "totN (geo c9s_space) = 2
   \<and> poly_state (poly (geo c9s_space) 0) = 1
   \<and> poly_state (poly (geo c9s_space) 1) = 0
   \<and> search_box ex_ext (part c9s_space) (poly (geo c9s_space) 0)
       = search_box ex_ext (part c9s_space) (poly (geo c9s_space) 1)
   \<and> (0, 0, 6) \<in> set (search_box ex_ext (part c9s_space) (poly (geo c9s_space) 0))
   \<and> node_index ex_ext (part c9s_space) (0, 0, 6) = 6
   \<and> gid (node c9s_space 6) = 0
   \<and> inside_shape ex_ext (part c9s_space) (poly (geo c9s_space) 0) (0, 0, 6)
   \<and> inside_shape ex_ext (part c9s_space) (poly (geo c9s_space) 1) (0, 0, 6)
   \<and> owner_claimed ex_ext (part c9s_space) (geo c9s_space) (0, 0, 6) = 1
   \<and> gid (node (IdentifyGeometryNode ex_ext c9s_space) 6) = 2
   \<and> ComputeGeometryDomain ex_ext c9s_space ex_model \<noteq> None
   \<and> gid (node (the (ComputeGeometryDomain ex_ext c9s_space ex_model)) 6) = 2"
proof -
  have a: "poly_state (poly c9s_geo 0) = 1" "poly_state (poly c9s_geo 1) = 0"
    by (simp_all add: c9s_geo_def ex_sphere_def)
  have b: "gid (c4_node 6) = 0" by (simp add: c4_node_def ex_cell_def)
  have c: "inside_shape ex_ext ex_part (poly c9s_geo 0) (0, 0, 6)"
    "inside_shape ex_ext ex_part (poly c9s_geo 1) (0, 0, 6)"
    by (simp_all add: c9s_geo_def c9s_inside)
  have d: "owner_claimed ex_ext ex_part c9s_geo (0, 0, 6) = 1"
    using c(1) by (simp add: owner_claimed_def c9s_sel ex_upt2)
  have e: "gid (node (IdentifyGeometryNode ex_ext c9s_space) 6) = 2"
    using c9s_IGN by (simp add: IdentifyGeometryNode_def c9s_sel)
  from c9s_returns obtain sp' where
    r: "ComputeGeometryDomain ex_ext c9s_space ex_model = Some sp'" "gid (node sp' 6) = 2"
    by blast
  from a b c d e r show ?thesis
    by (simp add: c9s_sel ex_box ex_index)
qed

lemma Init_node_classified:
  assumes "\<forall>n<totN g. poly_state (poly g n) = 1"
    and "0 \<le> gid v" "gid v \<le> int (totN g)" "gid v = 0 \<longrightarrow> lid v = 0 \<and> gst v = 0"
  shows "Init_node g v = (if gid v = 0 then v else v\<lparr>lid := 0, gst := 0\<rparr>)"
proof (cases "gid v = 0")
  case True
  with assms(4) show ?thesis by (simp add: Init_node_def)
next
  case False
  with assms(2,3) have "nat (gid v - 1) < totN g" by linarith
  with assms(1) have "poly_state (poly g (nat (gid v - 1))) = 1" by blast
  with False assms(2) show ?thesis by (simp add: Init_node_def)
qed

lemma classified_fixpoint:
  assumes st: "\<forall>n<totN (geo sp). poly_state (poly (geo sp) n) = 1"
    and inj: "inj_on (node_index ext (part sp)) (set (interior (part sp)))"
    and cl: "\<forall>t\<in>set (interior (part sp)). classified ext (part sp) (geo sp) (node sp) t"
  shows "ComputeGeometryDomain ext sp model = Some sp"
proof -
  let ?pt = "part sp" and ?g = "geo sp" and ?n1 = "node sp"
  let ?ix = "node_index ext ?pt"
  let ?m1 = "fold (Init_visit ext ?pt ?g) (interior ?pt) ?n1"
  have d: "distinct (map ?ix (interior ?pt))"
    using inj by (simp add: distinct_map distinct_interior)
  have m1_at: "?m1 (?ix t) = (if gid (?n1 (?ix t)) = 0 then ?n1 (?ix t)
                               else (?n1 (?ix t))\<lparr>lid := 0, gst := 0\<rparr>)"
    if t: "t \<in> set (interior ?pt)" for t
  proof -
    from cl t have c: "classified ext ?pt ?g ?n1 t" by blast
    have "?m1 (?ix t) = Init_node ?g (?n1 (?ix t))"
      by (rule Init_phase_at [OF d t])
    also have "\<dots> = (if gid (?n1 (?ix t)) = 0 then ?n1 (?ix t) else (?n1 (?ix t))\<lparr>lid := 0, gst := 0\<rparr>)"
      using c by (intro Init_node_classified [OF st]) (simp_all add: classified_def)
    finally show ?thesis .
  qed
  have m1_other: "?m1 a = ?n1 a" if "a \<notin> ?ix ` set (interior ?pt)" for a
    by (rule Init_phase_other [OF that])
  have gm: "\<forall>a. gid (?m1 a) = gid (?n1 a)"
  proof
    fix a
    show "gid (?m1 a) = gid (?n1 a)"
    proof (cases "a \<in> ?ix ` set (interior ?pt)")
      case True
      then obtain t where "t \<in> set (interior ?pt)" "a = ?ix t" by auto
      with m1_at [of t] show ?thesis by simp
    next
      case False
      then show ?thesis by (simp add: m1_other)
    qed
  qed
  have ign: "IdentifyGeometryNode ext (InitializeGeometryDomain ext sp) = InitializeGeometryDomain ext sp"
    by (rule IGN_stationary) (simp add: InitializeGeometryDomain_def st)
  have nn: "\<forall>t\<in>set (interior ?pt). \<not> newly_joined ext (?m1 (?ix t))"
  proof
    fix t assume t: "t \<in> set (interior ?pt)"
    from cl t have "classified ext ?pt ?g ?n1 t" by blast
    then show "\<not> newly_joined ext (?m1 (?ix t))"
      using m1_at [OF t] by (auto simp: classified_def newly_joined_def)
  qed
  have pure: "fold_option (IIN_visit ext ?pt model) (interior ?pt) ?m1
      = Some (fold (classify_step ext ?pt ?m1) (interior ?pt) ?m1)"
    by (rule IIN_phase_pure [OF _ nn]) simp
  have fin: "fold (classify_step ext ?pt ?m1) (interior ?pt) ?m1 = ?n1"
  proof
    fix a
    show "fold (classify_step ext ?pt ?m1) (interior ?pt) ?m1 a = ?n1 a"
    proof (cases "a \<in> ?ix ` set (interior ?pt)")
      case False
      from classify_fold_other [OF False] m1_other [OF False] show ?thesis by simp
    next
      case True
      then obtain t where t: "t \<in> set (interior ?pt)" and a: "a = ?ix t" by auto
      from cl t have c: "classified ext ?pt ?g ?n1 t" by blast
      have e: "fold (classify_step ext ?pt ?m1) (interior ?pt) ?m1 (?ix t)
             = classified_node ext ?pt ?n1 t (?m1 (?ix t))"
        using classify_fold_at [OF d t, of ?m1 ?m1] classified_node_cong [OF gm, of ext ?pt t]
        by simp
      show ?thesis
      proof (cases "gid (?n1 (?ix t)) = 0")
        case True
        with e m1_at [OF t] a show ?thesis by (simp add: classified_node_def)
      next
        case False
        with c have l: "lid_spec ext ?pt ?n1 t (gid (?n1 (?ix t))) = lid (?n1 (?ix t))"
          and gs: "(if lid (?n1 (?ix t)) \<noteq> 0 then gst_spec ext ?pt ?n1 t else 0) = gst (?n1 (?ix t))"
          by (simp_all add: classified_def)
        have "classified_node ext ?pt ?n1 t (?m1 (?ix t))
            = (?n1 (?ix t))\<lparr>lid := lid (?n1 (?ix t)), gst := gst (?n1 (?ix t))\<rparr>"
          using False m1_at [OF t] l gs by (simp add: classified_node_def)
        with e a show ?thesis by simp
      qed
    qed
  qed
  show ?thesis
    unfolding ComputeGeometryDomain_def ign
    using pure fin by (simp add: IdentifyInterfacialNode_def InitializeGeometryDomain_def)
qed

lemma IGN_phase_stationary:
  assumes "\<forall>n<totN g. poly_state (poly g n) = 1"
  shows "fold (IGN_poly ext pt g) [0..<totN g] nd = nd"
proof -
  have "fold (IGN_poly ext pt g) ns s = s" if "\<forall>n\<in>set ns. n < totN g" for ns s
    using that assms by (induction ns arbitrary: s) (simp_all add: IGN_poly_def)
  then show ?thesis by simp
qed

lemma first_call_classified:
  assumes c: "ComputeGeometryDomain ext sp model = Some sp'"
    and st: "\<forall>n<totN (geo sp). poly_state (poly (geo sp) n) = 1"
    and inj: "inj_on (node_index ext (part sp)) (set (interior (part sp)))"
    and le: "\<forall>t\<in>set (interior (part sp)). gid (node sp (node_index ext (part sp) t)) \<le> int (totN (geo sp))"
  shows "\<forall>t\<in>set (interior (part sp)). classified ext (part sp) (geo sp) (node sp') t"
proof
  fix t assume t: "t \<in> set (interior (part sp))"
  let ?pt = "part sp" and ?g = "geo sp"
  let ?a = "node_index ext ?pt t"
  let ?s1 = "fold (Init_visit ext ?pt ?g) (interior ?pt) (node sp)"
  have d: "distinct (map (node_index ext ?pt) (interior ?pt))"
    using inj by (simp add: distinct_map distinct_interior)
  from ComputeGeometryDomain_D [OF c] IGN_phase_stationary [OF st, of ext ?pt ?s1]
  have f: "fold_option (IIN_visit ext ?pt model) (interior ?pt) ?s1 = Some (node sp')"
    by simp
  have s1: "?s1 ?a = Init_node ?g (node sp ?a)"
    by (rule Init_phase_at [OF d t])
  from IIN_phase_gid [OF f] have gm: "\<forall>a. gid (node sp' a) = gid (?s1 a)" .
  have g0: "0 \<le> gid (?s1 ?a)" and g1: "gid (?s1 ?a) \<le> int (totN ?g)"
    using Init_node_gid [of ?g "node sp ?a"] le t unfolding s1 by auto
  have cl: "unowned_clear (node sp' ?a)"
  proof (rule fold_option_inv [OF f, where P = "\<lambda>x. unowned_clear (x ?a)"])
    show "unowned_clear (?s1 ?a)" unfolding s1 by (rule Init_node_clear)
  qed (rule IIN_visit_clear_pres)
  have fd: "fid (node sp' ?a) = NONE ext" if z: "gid (?s1 ?a) = 0"
  proof (cases "newly_joined ext (?s1 ?a)")
    case True
    from IIN_phase_newly [OF f d t True] show ?thesis by blast
  next
    case False
    with z have "fid (?s1 ?a) = NONE ext" by (simp add: newly_joined_def)
    with IIN_phase_old [OF f False] show ?thesis by simp
  qed
  have ow: "lid (node sp' ?a) = lid_spec ext ?pt (node sp') t (gid (node sp' ?a))
          \<and> gst (node sp' ?a) = (if lid (node sp' ?a) \<noteq> 0 then gst_spec ext ?pt (node sp') t else 0)"
    if nz: "gid (?s1 ?a) \<noteq> 0"
    using IIN_phase_owned [OF f d t nz] gm
      lid_spec_cong [OF gm, of ext ?pt t] gst_spec_cong [OF gm, of ext ?pt t]
    by simp
  show "classified ext ?pt ?g (node sp') t"
    unfolding classified_def using g0 g1 cl fd ow gm by (auto simp: unowned_clear_def)
qed

lemma Init_phase_classified:
  assumes st: "\<forall>n<totN g. poly_state (poly g n) = 1"
    and d: "distinct (map (node_index ext pt) (interior pt))"
    and t: "t \<in> set (interior pt)"
    and c: "classified ext pt g nd t"
  shows "fold (Init_visit ext pt g) (interior pt) nd (node_index ext pt t)
       = (if gid (nd (node_index ext pt t)) = 0 then nd (node_index ext pt t)
          else (nd (node_index ext pt t))\<lparr>lid := 0, gst := 0\<rparr>)"
proof -
  have "fold (Init_visit ext pt g) (interior pt) nd (node_index ext pt t)
      = Init_node g (nd (node_index ext pt t))"
    by (rule Init_phase_at [OF d t])
  also have "\<dots> = (if gid (nd (node_index ext pt t)) = 0 then nd (node_index ext pt t)
          else (nd (node_index ext pt t))\<lparr>lid := 0, gst := 0\<rparr>)"
    using c by (intro Init_node_classified [OF st]) (simp_all add: classified_def)
  finally show ?thesis .
qed

text \<open>
  Claim C8. Let a call of \<open>ComputeGeometryDomain\<close> return the space \<open>sp1\<close>, every shape
  being stationary, on a grid whose interior nodes have distinct linear indices and
  geometry identifiers that name a shape. Then a second call, on \<open>sp1\<close>, returns \<open>sp1\<close>:
  every node has all its fields as before the call, the owned nodes that are not
  interfacial among them. On the way, the reset phase changes nothing at an owned interior
  node but \<open>lid\<close> and \<open>gst\<close>, which it clears, so that it keeps \<open>gid\<close>, \<open>fid\<close> and the flow
  state; the ownership phase changes nothing; and an owned interior node that is not
  interfacial has \<open>lid = gst = 0\<close> and is left as it is by the reset phase already.
\<close>

theorem stationary_reclassification_is_identity:
  assumes "ComputeGeometryDomain ext sp0 model = Some sp1"
    and "\<forall>n<totN (geo sp0). poly_state (poly (geo sp0) n) = 1"
    and "inj_on (node_index ext (part sp0)) (set (interior (part sp0)))"
    and "\<forall>t\<in>set (interior (part sp0)).
           gid (node sp0 (node_index ext (part sp0) t)) \<le> int (totN (geo sp0))"
  shows "ComputeGeometryDomain ext sp1 model = Some sp1
     \<and> IdentifyGeometryNode ext (InitializeGeometryDomain ext sp1) = InitializeGeometryDomain ext sp1
     \<and> (\<forall>t\<in>set (interior (part sp1)). gid (node sp1 (node_index ext (part sp1) t)) \<noteq> 0 \<longrightarrow>
           node (InitializeGeometryDomain ext sp1) (node_index ext (part sp1) t)
             = (node sp1 (node_index ext (part sp1) t))\<lparr>lid := 0, gst := 0\<rparr>)
     \<and> (\<forall>t\<in>set (interior (part sp1)).
           gid (node sp1 (node_index ext (part sp1) t)) \<noteq> 0
           \<and> lid (node sp1 (node_index ext (part sp1) t)) = 0 \<longrightarrow>
           gst (node sp1 (node_index ext (part sp1) t)) = 0
           \<and> node (InitializeGeometryDomain ext sp1) (node_index ext (part sp1) t)
               = node sp1 (node_index ext (part sp1) t))"
proof -
  from ComputeGeometryDomain_D [OF assms(1)]
  have p: "part sp1 = part sp0" and g: "geo sp1 = geo sp0" by simp_all
  have st: "\<forall>n<totN (geo sp1). poly_state (poly (geo sp1) n) = 1"
    using assms(2) by (simp add: g)
  have inj: "inj_on (node_index ext (part sp1)) (set (interior (part sp1)))"
    using assms(3) by (simp add: p)
  have d: "distinct (map (node_index ext (part sp1)) (interior (part sp1)))"
    using inj by (simp add: distinct_map distinct_interior)
  have cl: "\<forall>t\<in>set (interior (part sp1)). classified ext (part sp1) (geo sp1) (node sp1) t"
    using first_call_classified [OF assms] by (simp add: p g)
  have 1: "ComputeGeometryDomain ext sp1 model = Some sp1"
    by (rule classified_fixpoint [OF st inj cl])
  have 2: "IdentifyGeometryNode ext (InitializeGeometryDomain ext sp1) = InitializeGeometryDomain ext sp1"
    by (rule IGN_stationary) (simp add: InitializeGeometryDomain_def st)
  have i: "node (InitializeGeometryDomain ext sp1) (node_index ext (part sp1) t)
         = (if gid (node sp1 (node_index ext (part sp1) t)) = 0
            then node sp1 (node_index ext (part sp1) t)
            else (node sp1 (node_index ext (part sp1) t))\<lparr>lid := 0, gst := 0\<rparr>)"
    if "t \<in> set (interior (part sp1))" for t
    using Init_phase_classified [OF st d that] cl that
    by (simp add: InitializeGeometryDomain_def)
  have 3: "\<forall>t\<in>set (interior (part sp1)). gid (node sp1 (node_index ext (part sp1) t)) \<noteq> 0 \<longrightarrow>
           node (InitializeGeometryDomain ext sp1) (node_index ext (part sp1) t)
             = (node sp1 (node_index ext (part sp1) t))\<lparr>lid := 0, gst := 0\<rparr>"
    using i by simp
  have 4: "\<forall>t\<in>set (interior (part sp1)).
           gid (node sp1 (node_index ext (part sp1) t)) \<noteq> 0
           \<and> lid (node sp1 (node_index ext (part sp1) t)) = 0 \<longrightarrow>
           gst (node sp1 (node_index ext (part sp1) t)) = 0
           \<and> node (InitializeGeometryDomain ext sp1) (node_index ext (part sp1) t)
               = node sp1 (node_index ext (part sp1) t)"
  proof (intro ballI impI)
    fix t assume t: "t \<in> set (interior (part sp1))"
      and h: "gid (node sp1 (node_index ext (part sp1) t)) \<noteq> 0
           \<and> lid (node sp1 (node_index ext (part sp1) t)) = 0"
    from cl t have "classified ext (part sp1) (geo sp1) (node sp1) t" by blast
    with h have z: "gst (node sp1 (node_index ext (part sp1) t)) = 0"
      by (simp add: classified_def)
    with h i [OF t] show "gst (node sp1 (node_index ext (part sp1) t)) = 0
           \<and> node (InitializeGeometryDomain ext sp1) (node_index ext (part sp1) t)
               = node sp1 (node_index ext (part sp1) t)"
      by simp
  qed
  from 1 2 3 4 show ?thesis by blast
qed

lemma c8_gids: "map (\<lambda>a. gid (c8_node a)) [0, 1, 2, 3, 4, 5, 6, 7, 8] = [- 1, - 1, 0, 0, 1, 1, 1, - 1, - 1]"
  by (simp add: c8_node_def ex_cell_def)

lemma c8_Init_node: "2 \<le> a \<Longrightarrow> a \<le> 6 \<Longrightarrow> Init_node (ex_geo 1) (c8_node a) = c8_node a"
  by (simp add: Init_node_def c8_node_def ex_cell_def ex_geo_def ex_sphere_def)

lemma c8_Init: "InitializeGeometryDomain ex_ext (ex_space 1 c8_node) = ex_space 1 c8_node"
proof -
  have "fold (Init_visit ex_ext ex_part (ex_geo 1)) (interior ex_part) c8_node = c8_node"
  proof (rule fold_fixed, rule ballI)
    fix t assume "t \<in> set (interior ex_part)"
    then show "Init_visit ex_ext ex_part (ex_geo 1) t c8_node = c8_node"
      by (auto simp: ex_interior Init_visit_def ex_index c8_Init_node)
  qed
  then show ?thesis
    by (simp add: InitializeGeometryDomain_def ex_space_def)
qed

lemma c8_returns:
  "ComputeGeometryDomain ex_ext (ex_space 1 c8_node) ex_model = Some c8_space"
proof -
  have "\<not> newly_joined ex_ext (c8_node a)" for a
    by (simp add: newly_joined_def c8_node_def ex_cell_def ex_ext_def)
  then have "fold_option (IIN_visit ex_ext ex_part ex_model) (interior ex_part) c8_node
      = Some (fold (classify_step ex_ext ex_part c8_node) (interior ex_part) c8_node)"
    by (intro IIN_phase_pure) simp_all
  then show ?thesis
    by (simp add: ComputeGeometryDomain_def c8_Init ex_IGN IdentifyInterfacialNode_def
        ex_space_sel c8_space_def)
qed

lemma c8_deep:
  "gid (node c8_space 6) = 1" "lid (node c8_space 6) = 0"
proof -
  have 6: "(0, 0, 6) \<in> set (interior ex_part)" by (simp add: ex_interior)
  have g: "gid (c8_node 6) = 1" by (simp add: c8_node_def ex_cell_def)
  have l: "lid_spec ex_ext ex_part c8_node (0, 0, 6) 1 = 0"
    using ex_layer_of c8_gids
    by (simp add: lid_spec_def layer_value_def ex_first_neighbour ex_path_index [simplified])
  show "gid (node c8_space 6) = 1" "lid (node c8_space 6) = 0"
    using classify_fold_at [OF ex_distinct 6, of c8_node c8_node] g l
    by (simp_all add: c8_space_def ex_index classified_node_def)
qed

theorem stationary_reclassification_is_identity_witness:
  "ComputeGeometryDomain ex_ext (ex_space 1 c8_node) ex_model = Some c8_space
   \<and> ComputeGeometryDomain ex_ext c8_space ex_model = Some c8_space
   \<and> IdentifyGeometryNode ex_ext (InitializeGeometryDomain ex_ext c8_space)
       = InitializeGeometryDomain ex_ext c8_space
   \<and> node (InitializeGeometryDomain ex_ext c8_space) 5 = (node c8_space 5)\<lparr>lid := 0, gst := 0\<rparr>
   \<and> gid (node c8_space 6) = 1 \<and> lid (node c8_space 6) = 0 \<and> gst (node c8_space 6) = 0
   \<and> node (InitializeGeometryDomain ex_ext c8_space) 6 = node c8_space 6"
proof -
  have n: "totN (geo (ex_space 1 c8_node)) = 1"
    and s: "poly_state (poly (geo (ex_space 1 c8_node)) 0) = 1"
    by (simp_all add: ex_space_sel ex_geo_def ex_sphere_def)
  have le: "\<forall>t\<in>set (interior (part (ex_space 1 c8_node))).
      gid (node (ex_space 1 c8_node) (node_index ex_ext (part (ex_space 1 c8_node)) t))
        \<le> int (totN (geo (ex_space 1 c8_node)))"
    unfolding n by (simp add: ex_space_sel ex_interior ex_index c8_node_def ex_cell_def)
  have st: "\<forall>n<totN (geo (ex_space 1 c8_node)). poly_state (poly (geo (ex_space 1 c8_node)) n) = 1"
    unfolding n using s by simp
  have p: "part c8_space = ex_part" by (simp add: c8_space_def ex_space_sel)
  have g5: "gid (node c8_space 5) \<noteq> 0"
    by (simp add: c8_space_def classify_fold_gid c8_node_def ex_cell_def)
  note T = stationary_reclassification_is_identity [OF c8_returns st _ le, unfolded p ex_space_sel, OF ex_inj]
  from T have a: "ComputeGeometryDomain ex_ext c8_space ex_model = Some c8_space"
    and b: "IdentifyGeometryNode ex_ext (InitializeGeometryDomain ex_ext c8_space)
       = InitializeGeometryDomain ex_ext c8_space" by blast+
  from T have "\<forall>t\<in>set (interior ex_part). gid (node c8_space (node_index ex_ext ex_part t)) \<noteq> 0 \<longrightarrow>
           node (InitializeGeometryDomain ex_ext c8_space) (node_index ex_ext ex_part t)
             = (node c8_space (node_index ex_ext ex_part t))\<lparr>lid := 0, gst := 0\<rparr>" by blast
  then have c: "node (InitializeGeometryDomain ex_ext c8_space) 5 = (node c8_space 5)\<lparr>lid := 0, gst := 0\<rparr>"
    using g5 by (simp add: ex_interior ex_index)
  from T have "\<forall>t\<in>set (interior ex_part).
           gid (node c8_space (node_index ex_ext ex_part t)) \<noteq> 0
           \<and> lid (node c8_space (node_index ex_ext ex_part t)) = 0 \<longrightarrow>
           gst (node c8_space (node_index ex_ext ex_part t)) = 0
           \<and> node (InitializeGeometryDomain ex_ext c8_space) (node_index ex_ext ex_part t)
               = node c8_space (node_index ex_ext ex_part t)" by blast
  then have e: "gst (node c8_space 6) = 0
      \<and> node (InitializeGeometryDomain ex_ext c8_space) 6 = node c8_space 6"
    using c8_deep by (simp add: ex_interior ex_index)
  from c8_returns a b c c8_deep e show ?thesis by blast
qed

end
